theory Spec2Isabelle
  imports Main "HOL-Library.Multiset" "HOL-Library.Word"
begin

section \<open>Tag lifecycle of the tag manager (api/src/managers/tag/TagManager.ts)\<close>

text \<open>
  The mutation resolvers of \<^verbatim>\<open>TagManager\<close> read and write three collections of a document
  store (tags, rule groups, revisions) through repositories, behind an authorization gate.
  The embedding makes the store an explicit state that every resolver takes and returns,
  and an exception a value: a resolver yields either an error or its result, together
  with the store as it stands at that moment (writes made before a throw stay made, as
  there is no transaction around a request).
\<close>

subsection \<open>Identifiers, GraphQL inputs and models\<close>

text \<open>
  An \<^verbatim>\<open>ObjectId\<close> of the database driver is a value of 96 bits. The GraphQL \<^verbatim>\<open>ID\<close> scalar is
  a string. \<open>toString\<close> renders an identifier as 24 hexadecimal digits in lower case
  (\<^verbatim>\<open>toHexString\<close>); \<^verbatim>\<open>new ObjectId(s)\<close>, defined with the errors below, reads a string of 24
  hexadecimal digits in either case, or a string of 12 bytes, and throws on any other
  string.
\<close>

type_synonym ID = string

datatype ObjectId = ObjectId (number: "96 word")

definition hexDigits :: string where
  "hexDigits = ''0123456789abcdef''"

definition digitOf :: "char \<Rightarrow> nat option" where
  "digitOf c = map_of
     [(CHR ''0'', 0), (CHR ''1'', 1), (CHR ''2'', 2), (CHR ''3'', 3), (CHR ''4'', 4),
      (CHR ''5'', 5), (CHR ''6'', 6), (CHR ''7'', 7), (CHR ''8'', 8), (CHR ''9'', 9),
      (CHR ''a'', 10), (CHR ''b'', 11), (CHR ''c'', 12), (CHR ''d'', 13), (CHR ''e'', 14),
      (CHR ''f'', 15), (CHR ''A'', 10), (CHR ''B'', 11), (CHR ''C'', 12), (CHR ''D'', 13),
      (CHR ''E'', 14), (CHR ''F'', 15)] c"

text \<open>The \<open>k\<close> lowest hexadecimal digits of a number, most significant first.\<close>

primrec toHex :: "nat \<Rightarrow> nat \<Rightarrow> string" where
  "toHex 0 n = []"
| "toHex (Suc k) n = toHex k (n div 16) @ [hexDigits ! (n mod 16)]"

text \<open>The number a string of hexadecimal digits denotes; none if a character is no digit.\<close>

definition fromHex :: "string \<Rightarrow> nat option" where
  "fromHex cs =
     foldl (\<lambda>acc c. case acc of
                       None \<Rightarrow> None
                     | Some a \<Rightarrow> (case digitOf c of None \<Rightarrow> None | Some d \<Rightarrow> Some (16 * a + d)))
       (Some 0) cs"

text \<open>The number that the bytes of a string denote, most significant first.\<close>

definition fromBytes :: "string \<Rightarrow> nat" where
  "fromBytes cs = foldl (\<lambda>a c. 256 * a + of_char c) 0 cs"

definition toString :: "ObjectId \<Rightarrow> ID" where
  "toString i = toHex 24 (unat (number i))"

datatype TagType = HEAD | PLACEMENT

text \<open>The GraphQL input types of the schema (\<^verbatim>\<open>gqlSchema\<close>), defaults filled in by the server.\<close>

record TagCreateInput =
  revision_id :: ID
  name :: string
  type :: TagType
  width :: int
  height :: int
  auto_load :: bool
  comments :: "string option"

record TagDuplicateInput =
  tag_id :: ID
  name :: string

record TagDeleteInput =
  tag_id :: ID
  preview :: bool
  comments :: "string option"

record TagUpdateInput =
  tag_id :: ID
  name :: "string option"
  is_active :: "bool option"
  width :: "int option"
  height :: "int option"
  auto_load :: "bool option"
  comments :: "string option"

record TagRuleGroupOrderInput =
  tag_id :: ID
  new_order :: "ID list"

text \<open>
  The model classes are not part of the sources at hand; their fields are those the
  resolvers use and section 3 of the specification lists. The timestamps kept by the
  persistence layer are left out.
\<close>

record Model =
  id' :: ObjectId
  orgId :: ObjectId

record Tag = Model +
  name :: string
  tagCode :: string
  revisionId :: ObjectId
  type :: TagType
  ruleGroupIds :: "ObjectId list"
  width :: int
  height :: int
  autoLoad :: bool
  isActive :: bool

record Revision = Model +
  tagIds :: "ObjectId list"

type_synonym RuleGroup = Model

datatype User = User ObjectId

subsection \<open>Errors\<close>

text \<open>
  \<^verbatim>\<open>userMessages\<close> is a table of message texts that is not in the sources; its three
  entries used here are kept symbolic. A \<^verbatim>\<open>GQLError\<close> carries a message and the flag
  that marks it as a user message (second constructor argument, false when omitted).
\<close>

datatype userMessages = tagFailed | revisionFailed | reOrderProblem

datatype Message = UserMessage userMessages | Literal string

datatype AccessLevel = ViewAccess | CreateAccess | EditAccess | DeleteAccess

datatype Error =
  GQLError Message bool | AccessDenied AccessLevel | BSONTypeError | OutOfIdentifiers

text \<open>
  \<^verbatim>\<open>new ObjectId(s)\<close> for a string \<open>s\<close>, as the driver documents it (\<^emph>\<open>a single String of 12
  bytes or a string of 24 hex characters\<close>): the identifier that 24 hexadecimal digits
  denote, in either case of the letters; the identifier whose 12 bytes a string of 12
  characters gives; and the driver's type error for every other string. \<open>map_throws\<close>
  is \<^verbatim>\<open>Array.prototype.map\<close> with a callback that may throw: the first throw ends the map.
\<close>

definition new_ObjectId :: "ID \<Rightarrow> Error + ObjectId" where
  "new_ObjectId s =
     (if length s = 24 then
        (case fromHex s of None \<Rightarrow> Inl BSONTypeError | Some n \<Rightarrow> Inr (ObjectId (of_nat n)))
      else if length s = 12 then Inr (ObjectId (of_nat (fromBytes s)))
      else Inl BSONTypeError)"

primrec map_throws :: "('a \<Rightarrow> Error + 'b) \<Rightarrow> 'a list \<Rightarrow> Error + 'b list" where
  "map_throws f [] = Inr []"
| "map_throws f (x # xs) =
     (case f x of
        Inl e \<Rightarrow> Inl e
      | Inr y \<Rightarrow> (case map_throws f xs of Inl e \<Rightarrow> Inl e | Inr ys \<Rightarrow> Inr (y # ys)))"

subsection \<open>The document store and its repositories\<close>

datatype OperationOwner = USER | SYSTEM

datatype GQLMethod =
  CREATE | DELETE | UPDATE_PROPERTIES | ADD_LINKED_ENTITY | DELETE_LINKED_ENTITY
  | REORDER_LINKED_ENTITIES

record SaveOptions =
  gqlMethod :: GQLMethod
  userComments :: "string option"
  opConnectedModels :: "ObjectId list"

type_synonym Audit = "ObjectId \<times> User \<times> OperationOwner \<times> SaveOptions"

record Store =
  tags :: "ObjectId \<rightharpoonup> Tag"
  ruleGroups :: "ObjectId \<rightharpoonup> RuleGroup"
  revisions :: "ObjectId \<rightharpoonup> Revision"
  audit :: "Audit list"
  nextId :: nat

text \<open>
  An asynchronous computation (\<^verbatim>\<open>Promise\<close>) against the store: it settles with an error
  (rejected) or a value (resolved) and leaves a store behind.
\<close>

type_synonym 'a Promise = "Store \<Rightarrow> (Error + 'a) \<times> Store"

definition resolve :: "'a \<Rightarrow> 'a Promise" where
  "resolve x = (\<lambda>s. (Inr x, s))"

definition throw :: "Error \<Rightarrow> 'a Promise" where
  "throw e = (\<lambda>s. (Inl e, s))"

definition await :: "'a Promise \<Rightarrow> ('a \<Rightarrow> 'b Promise) \<Rightarrow> 'b Promise" where
  "await p k = (\<lambda>s. case p s of (Inl e, s') \<Rightarrow> (Inl e, s') | (Inr x, s') \<Rightarrow> k x s')"

text \<open>
  An expression that may throw, evaluated inside an asynchronous function: a throw rejects
  the function's promise, with the store as it is.
\<close>

definition sync :: "Error + 'a \<Rightarrow> 'a Promise" where
  "sync r = (case r of Inl e \<Rightarrow> throw e | Inr x \<Rightarrow> resolve x)"

text \<open>
  Modelled from the spec: the repository layer (\<^verbatim>\<open>repoFactory(M).findByIdThrows\<close>,
  \<^verbatim>\<open>findByIds\<close>, \<^verbatim>\<open>save\<close>) is missing from the sources. Section 6 gives its interface:
  \<^verbatim>\<open>findByIdThrows(id, errorMessage) -> Entity\<close> fails loudly, \<^verbatim>\<open>findByIds(ids) -> [Entity]\<close>,
  \<^verbatim>\<open>save(entity, actor, owner, auditMeta)\<close>; section 2 says every write is recorded by the
  audit collaborator. A collection is a map from identifiers to documents, the repository
  of a model is the selector of its collection, and a save stores the document under its
  own id and appends an audit record. A failing write is not modelled.
\<close>

definition findByIdThrows ::
  "(Store \<Rightarrow> ObjectId \<rightharpoonup> 'm) \<Rightarrow> ObjectId \<Rightarrow> userMessages \<Rightarrow> 'm Promise" where
  "findByIdThrows repo i msg =
     (\<lambda>s. case repo s i of
             None \<Rightarrow> (Inl (GQLError (UserMessage msg) True), s)
           | Some m \<Rightarrow> (Inr m, s))"

definition findByIds :: "(Store \<Rightarrow> ObjectId \<rightharpoonup> 'm) \<Rightarrow> ObjectId list \<Rightarrow> ('m list) Promise" where
  "findByIds repo ids = (\<lambda>s. (Inr (List.map_filter (repo s) ids), s))"

definition save_Tag :: "Tag \<Rightarrow> User \<Rightarrow> OperationOwner \<Rightarrow> SaveOptions \<Rightarrow> Tag Promise" where
  "save_Tag m actor owner opts =
     (\<lambda>s. (Inr m, s\<lparr>tags := (tags s)(id' m \<mapsto> m),
                     audit := audit s @ [(id' m, actor, owner, opts)]\<rparr>))"

definition save_Revision ::
  "Revision \<Rightarrow> User \<Rightarrow> OperationOwner \<Rightarrow> SaveOptions \<Rightarrow> Revision Promise" where
  "save_Revision m actor owner opts =
     (\<lambda>s. (Inr m, s\<lparr>revisions := (revisions s)(id' m \<mapsto> m),
                     audit := audit s @ [(id' m, actor, owner, opts)]\<rparr>))"

definition save_RuleGroup ::
  "RuleGroup \<Rightarrow> User \<Rightarrow> OperationOwner \<Rightarrow> SaveOptions \<Rightarrow> RuleGroup Promise" where
  "save_RuleGroup m actor owner opts =
     (\<lambda>s. (Inr m, s\<lparr>ruleGroups := (ruleGroups s)(id' m \<mapsto> m),
                     audit := audit s @ [(id' m, actor, owner, opts)]\<rparr>))"

subsection \<open>Authorization\<close>

text \<open>
  Modelled from the spec: \<^verbatim>\<open>orgAuth\<close> is missing from the sources. Section 2: given an
  actor's session and an organization id it yields the acting identity or rejects the
  operation, gated by the requested capability; section 5: the mutation body only executes
  if the actor is granted the capability. The request context carries the session's user
  and the capabilities it holds per organization.
\<close>

record CTX =
  user :: User
  access :: "ObjectId \<Rightarrow> AccessLevel \<Rightarrow> bool"

definition asUserWithAccess ::
  "AccessLevel \<Rightarrow> CTX \<Rightarrow> ObjectId \<Rightarrow> (User \<Rightarrow> 'a Promise) \<Rightarrow> 'a Promise" where
  "asUserWithAccess level ctx org body =
     (if access ctx org level then body (user ctx) else throw (AccessDenied level))"

abbreviation asUserWithViewAccess :: "CTX \<Rightarrow> ObjectId \<Rightarrow> (User \<Rightarrow> 'a Promise) \<Rightarrow> 'a Promise" where
  "asUserWithViewAccess \<equiv> asUserWithAccess ViewAccess"

abbreviation asUserWithCreateAccess :: "CTX \<Rightarrow> ObjectId \<Rightarrow> (User \<Rightarrow> 'a Promise) \<Rightarrow> 'a Promise" where
  "asUserWithCreateAccess \<equiv> asUserWithAccess CreateAccess"

abbreviation asUserWithEditAccess :: "CTX \<Rightarrow> ObjectId \<Rightarrow> (User \<Rightarrow> 'a Promise) \<Rightarrow> 'a Promise" where
  "asUserWithEditAccess \<equiv> asUserWithAccess EditAccess"

abbreviation asUserWithDeleteAccess :: "CTX \<Rightarrow> ObjectId \<Rightarrow> (User \<Rightarrow> 'a Promise) \<Rightarrow> 'a Promise" where
  "asUserWithDeleteAccess \<equiv> asUserWithAccess DeleteAccess"

subsection \<open>updateRuleGroupsOrder\<close>

text \<open>\<^verbatim>\<open>Array.prototype.indexOf\<close>: the first index of an element, \<open>-1\<close> when it does not occur.\<close>

primrec indexOf :: "'a list \<Rightarrow> 'a \<Rightarrow> int" where
  "indexOf [] x = - 1"
| "indexOf (y # ys) x =
     (if y = x then 0 else (let i = indexOf ys x in if i = - 1 then - 1 else i + 1))"

definition updateRuleGroupsOrder :: "TagRuleGroupOrderInput \<Rightarrow> CTX \<Rightarrow> bool Promise" where
  "updateRuleGroupsOrder data ctx =
     await (sync (new_ObjectId (TagRuleGroupOrderInput.tag_id data))) (\<lambda>tagId.
     await (findByIdThrows tags tagId tagFailed) (\<lambda>tag.
       asUserWithEditAccess ctx (orgId tag) (\<lambda>me.
         if length (ruleGroupIds tag) = length (new_order data)
            \<and> list_all (\<lambda>x. indexOf (new_order data) x \<noteq> - 1) (map toString (ruleGroupIds tag))
         then
           await (sync (map_throws new_ObjectId (new_order data))) (\<lambda>ids.
           let tag = tag\<lparr>ruleGroupIds := ids\<rparr> in
           await (findByIds ruleGroups (ruleGroupIds tag)) (\<lambda>connected.
           await (save_Tag tag me USER
                    \<lparr>gqlMethod = REORDER_LINKED_ENTITIES, userComments = None,
                     opConnectedModels = map id' connected\<rparr>) (\<lambda>_.
           resolve True)))
         else throw (GQLError (UserMessage reOrderProblem) True))))"

subsection \<open>deleteTag\<close>

text \<open>
  A \<^verbatim>\<open>ModelDeleteAcknowledgement\<close> names one deleted entity: the kind of model and its id.
\<close>

datatype ModelDeleteAcknowledgement = ModelDeleteAcknowledgement (model: string) (ack_id: ID)

text \<open>
  \<^verbatim>\<open>deleteModelCascading\<close> (utils/ModelUtils) is missing from the sources, so the resolver
  takes it as its first argument: any computation from the actor, the tag and the preview
  flag to a list of acknowledgements.
\<close>

type_synonym Cascade = "User \<Rightarrow> Tag \<Rightarrow> bool \<Rightarrow> (ModelDeleteAcknowledgement list) Promise"

definition deleteTag ::
  "Cascade \<Rightarrow> TagDeleteInput \<Rightarrow> CTX \<Rightarrow> (ModelDeleteAcknowledgement list) Promise" where
  "deleteTag cascade data ctx =
     await (sync (new_ObjectId (TagDeleteInput.tag_id data))) (\<lambda>tagId.
     await (findByIdThrows tags tagId tagFailed) (\<lambda>tag.
       asUserWithDeleteAccess ctx (orgId tag) (\<lambda>me.
         let previewMode = (preview data = True) in
         await (if \<not> previewMode then
                  await (findByIdThrows revisions (revisionId tag) revisionFailed) (\<lambda>revision.
                  let revision = revision\<lparr>tagIds := filter (\<lambda>x. \<not> x = id' tag) (tagIds revision)\<rparr> in
                  await (save_Revision revision me USER
                           \<lparr>gqlMethod = DELETE_LINKED_ENTITY,
                            userComments = TagDeleteInput.comments data,
                            opConnectedModels = [id' tag]\<rparr>) (\<lambda>_.
                  resolve ()))
                else resolve ()) (\<lambda>_.
         cascade me tag previewMode))))"

text \<open>
  The store as the resolver leaves it before it invokes the cascade in a delete that is
  not a preview: the revision saved with the tag's id filtered out of \<open>tagIds\<close>.
\<close>

definition unlinked :: "User \<Rightarrow> TagDeleteInput \<Rightarrow> Tag \<Rightarrow> Revision \<Rightarrow> Store \<Rightarrow> Store" where
  "unlinked me data tag revision s =
     s\<lparr>revisions := (revisions s)
          (id' revision \<mapsto> revision\<lparr>tagIds := filter (\<lambda>x. \<not> x = id' tag) (tagIds revision)\<rparr>),
       audit := audit s @
          [(id' revision, me, USER,
            \<lparr>gqlMethod = DELETE_LINKED_ENTITY, userComments = TagDeleteInput.comments data,
             opConnectedModels = [id' tag]\<rparr>)]\<rparr>"

text \<open>
  Modelled from the spec: \<^verbatim>\<open>deleteModelCascading(actor, entity, previewFlag) -> [Acknowledgement]\<close>
  is missing from the sources. Section 4.4: it deletes the Tag and everything transitively
  owned by it (its RuleGroups; what those own is out of scope), and returns an ordered
  sequence of acknowledgements covering the Tag and all cascaded children, real or
  simulated depending on the flag; with the flag set it only computes what would be
  deleted and mutates no persisted state. The children are the rule groups of
  \<open>ruleGroupIds\<close> that exist in the store.
\<close>

definition deleteModelCascading :: Cascade where
  "deleteModelCascading actor tag previewFlag =
     (\<lambda>s. let children = filter (\<lambda>i. ruleGroups s i \<noteq> None) (ruleGroupIds tag);
               acks = ModelDeleteAcknowledgement ''Tag'' (toString (id' tag))
                      # map (\<lambda>i. ModelDeleteAcknowledgement ''RuleGroup'' (toString i)) children
           in if previewFlag then (Inr acks, s)
              else (Inr acks,
                    s\<lparr>tags := (tags s)(id' tag := None),
                      ruleGroups := ruleGroups s |` (- set children),
                      audit := audit s @
                        map (\<lambda>i. (i, actor, USER,
                                  \<lparr>gqlMethod = DELETE, userComments = None,
                                   opConnectedModels = []\<rparr>)) (id' tag # children)\<rparr>))"

subsection \<open>updateTag\<close>

datatype GQLValue = GQLID ID | GQLString string | GQLInt int | GQLBoolean bool | GQLTagType TagType

type_synonym GQLObject = "string \<rightharpoonup> GQLValue"

text \<open>
  The input object as the resolver receives it: a property is present when the request
  supplied it.
\<close>

definition toObject :: "TagUpdateInput \<Rightarrow> GQLObject" where
  "toObject data = (\<lambda>key.
     if key = ''tag_id'' then Some (GQLID (TagUpdateInput.tag_id data))
     else if key = ''name'' then map_option GQLString (TagUpdateInput.name data)
     else if key = ''is_active'' then map_option GQLBoolean (is_active data)
     else if key = ''width'' then map_option GQLInt (TagUpdateInput.width data)
     else if key = ''height'' then map_option GQLInt (TagUpdateInput.height data)
     else if key = ''auto_load'' then map_option GQLBoolean (TagUpdateInput.auto_load data)
     else if key = ''comments'' then map_option GQLString (TagUpdateInput.comments data)
     else None)"

text \<open>
  Modelled from the spec: \<^verbatim>\<open>bulkGQLSet(data, keys)\<close> of the model base class is missing from
  the sources. Section 4.3: only the fields explicitly present in the input are applied,
  absent fields are left untouched; section 9: only allow-listed fields are applied. The
  call site calls its list of keys a safety check against this function, so the function
  by itself can assign any scalar property the GraphQL type \<^verbatim>\<open>Tag\<close> exposes: \<open>gqlSet\<close>
  assigns the model property behind one GraphQL field name, \<open>bulkGQLSet\<close> does so for each
  listed key that the object has. A value of another GraphQL type than the field's cannot
  pass the schema and is left unapplied.
\<close>

definition gqlSet :: "string \<Rightarrow> GQLValue \<Rightarrow> Tag \<Rightarrow> Tag" where
  "gqlSet key v tag =
     (case v of
        GQLString x \<Rightarrow>
          if key = ''name'' then tag\<lparr>Tag.name := x\<rparr>
          else if key = ''tag_code'' then tag\<lparr>tagCode := x\<rparr> else tag
      | GQLInt n \<Rightarrow>
          if key = ''width'' then tag\<lparr>Tag.width := n\<rparr>
          else if key = ''height'' then tag\<lparr>Tag.height := n\<rparr> else tag
      | GQLBoolean b \<Rightarrow>
          if key = ''auto_load'' then tag\<lparr>autoLoad := b\<rparr>
          else if key = ''is_active'' then tag\<lparr>isActive := b\<rparr> else tag
      | GQLTagType t \<Rightarrow> if key = ''type'' then tag\<lparr>Tag.type := t\<rparr> else tag
      | GQLID _ \<Rightarrow> tag)"

definition bulkGQLSet :: "Tag \<Rightarrow> GQLObject \<Rightarrow> string list \<Rightarrow> Tag" where
  "bulkGQLSet tag data keys =
     fold (\<lambda>key tag. case data key of None \<Rightarrow> tag | Some v \<Rightarrow> gqlSet key v tag) keys tag"

definition autoLoadPlacementError :: Error where
  "autoLoadPlacementError =
     GQLError (Literal ''Auto-load can not be used with this placement type'') False"

definition updateTag :: "TagUpdateInput \<Rightarrow> CTX \<Rightarrow> bool Promise" where
  "updateTag data ctx =
     await (sync (new_ObjectId (TagUpdateInput.tag_id data))) (\<lambda>tagId.
     await (findByIdThrows tags tagId tagFailed) (\<lambda>tag.
       asUserWithEditAccess ctx (orgId tag) (\<lambda>me.
         if Tag.type tag = PLACEMENT \<and> TagUpdateInput.auto_load data = Some True
         then throw autoLoadPlacementError
         else
           let tag = bulkGQLSet tag (toObject data)
                       [''name'', ''width'', ''height'', ''auto_load'', ''is_active''] in
           await (save_Tag tag me USER
                    \<lparr>gqlMethod = UPDATE_PROPERTIES,
                     userComments = TagUpdateInput.comments data,
                     opConnectedModels = []\<rparr>) (\<lambda>_.
           resolve True))))"

subsection \<open>duplicateTag\<close>

text \<open>
  New identifiers are generated by the driver, which returns an identifier that it has
  not returned before. The model draws them from a counter of the store; the identifiers
  being values of 96 bits, the counter ends with them, and a draw beyond them fails.
\<close>

definition newObjectId :: "ObjectId Promise" where
  "newObjectId =
     (\<lambda>s. if nextId s < 2 ^ 96
          then (Inr (ObjectId (of_nat (nextId s))), s\<lparr>nextId := Suc (nextId s)\<rparr>)
          else (Inl OutOfIdentifiers, s))"

text \<open>
  Modelled from the spec: \<^verbatim>\<open>createNewModelBranchFromModel(actor, sourceEntity, repoType)\<close>
  (utils/ModelUtils) is missing from the sources. Section 4.2: the source Tag's fields
  are copied into a new entity that inherits the same \<open>tagCode\<close> but receives a new
  identifier, and the duplicate receives its own independent copy of the rule groups.
  The copy is persisted (the resolver uses its id right away).
\<close>

primrec branchRuleGroups :: "User \<Rightarrow> ObjectId list \<Rightarrow> (ObjectId list) Promise" where
  "branchRuleGroups actor [] = resolve []"
| "branchRuleGroups actor (r # rs) =
     (\<lambda>s. case ruleGroups s r of
             None \<Rightarrow> branchRuleGroups actor rs s
           | Some g \<Rightarrow>
               await newObjectId (\<lambda>i.
               await (save_RuleGroup (g\<lparr>id' := i\<rparr>) actor USER
                        \<lparr>gqlMethod = CREATE, userComments = None, opConnectedModels = []\<rparr>) (\<lambda>g'.
               await (branchRuleGroups actor rs) (\<lambda>copies.
               resolve (id' g' # copies)))) s)"

definition createNewModelBranchFromModel :: "User \<Rightarrow> Tag \<Rightarrow> Tag Promise" where
  "createNewModelBranchFromModel actor tag =
     await newObjectId (\<lambda>i.
     await (branchRuleGroups actor (ruleGroupIds tag)) (\<lambda>copies.
     save_Tag (tag\<lparr>id' := i, ruleGroupIds := copies\<rparr>) actor USER
       \<lparr>gqlMethod = CREATE, userComments = None, opConnectedModels = []\<rparr>))"

text \<open>\<^verbatim>\<open>toGQLType\<close> gives the GraphQL view of a model; the model keeps the model's fields.\<close>

definition toGQLType :: "Tag \<Rightarrow> Tag" where
  "toGQLType tag = tag"

text \<open>The local function \<^verbatim>\<open>duplicateTag\<close> of the resolver of the same name.\<close>

definition duplicateTag_local :: "User \<Rightarrow> Tag \<Rightarrow> Tag Promise" where
  "duplicateTag_local actor tag =
     await (findByIdThrows revisions (revisionId tag) revisionFailed) (\<lambda>revision.
     await (createNewModelBranchFromModel actor tag) (\<lambda>newTag.
     let revision = revision\<lparr>tagIds := tagIds revision @ [id' newTag]\<rparr> in
     await (save_Revision revision actor USER
              \<lparr>gqlMethod = ADD_LINKED_ENTITY, userComments = None,
               opConnectedModels = [id' newTag]\<rparr>) (\<lambda>_.
     resolve newTag)))"

definition duplicateTag :: "TagDuplicateInput \<Rightarrow> CTX \<Rightarrow> Tag Promise" where
  "duplicateTag data ctx =
     await (sync (new_ObjectId (TagDuplicateInput.tag_id data))) (\<lambda>tagId.
     await (findByIdThrows tags tagId tagFailed) (\<lambda>tag.
       asUserWithCreateAccess ctx (orgId tag) (\<lambda>me.
         await (duplicateTag_local me tag) (\<lambda>duplicate.
         let duplicate = duplicate\<lparr>Tag.name := TagDuplicateInput.name data\<rparr> in
         await (save_Tag duplicate me USER
                  \<lparr>gqlMethod = UPDATE_PROPERTIES,
                   userComments = Some (''Changed tag name to '' @ Tag.name duplicate),
                   opConnectedModels = []\<rparr>) (\<lambda>saved.
         resolve (toGQLType saved))))))"

subsection \<open>createTag\<close>

text \<open>
  Modelled from the spec: \<^verbatim>\<open>createTagSkeleton\<close> (utils/TagUtils) is missing from the sources.
  Section 4.1: it allocates a new Tag with a freshly generated lineage \<open>tagCode\<close>, empty
  \<open>ruleGroupIds\<close> and \<open>revisionId\<close> set to the target Revision, persists it, appends the
  new Tag's id to the Revision's \<open>tagIds\<close> and persists that change too, with the Tag as a
  connected model of the Revision's audit entry. The generator of tag codes is not
  specified: \<open>generateTagCode\<close> is an argument, applied to the number of the new id. The
  new Tag belongs to the Revision's organization and starts active.
\<close>

definition createTagSkeleton ::
  "(nat \<Rightarrow> string) \<Rightarrow> User \<Rightarrow> Revision \<Rightarrow> string \<Rightarrow> TagType \<Rightarrow> int \<Rightarrow> int \<Rightarrow> bool
     \<Rightarrow> string option \<Rightarrow> Tag Promise" where
  "createTagSkeleton generateTagCode actor revision name' type' width' height' autoLoad' comments' =
     await newObjectId (\<lambda>i.
     await (save_Tag
              \<lparr>id' = i, orgId = orgId revision, name = name',
               tagCode = generateTagCode (unat (number i)), revisionId = id' revision,
               type = type', ruleGroupIds = [], width = width', height = height',
               autoLoad = autoLoad', isActive = True\<rparr>
              actor USER
              \<lparr>gqlMethod = CREATE, userComments = comments', opConnectedModels = []\<rparr>) (\<lambda>newTag.
     let revision = revision\<lparr>tagIds := tagIds revision @ [id' newTag]\<rparr> in
     await (save_Revision revision actor USER
              \<lparr>gqlMethod = ADD_LINKED_ENTITY, userComments = None,
               opConnectedModels = [id' newTag]\<rparr>) (\<lambda>_.
     resolve newTag)))"

definition createTag :: "(nat \<Rightarrow> string) \<Rightarrow> TagCreateInput \<Rightarrow> CTX \<Rightarrow> Tag Promise" where
  "createTag generateTagCode data ctx =
     await (sync (new_ObjectId (revision_id data))) (\<lambda>targetId.
     await (findByIdThrows revisions targetId revisionFailed) (\<lambda>revision.
       asUserWithCreateAccess ctx (orgId revision) (\<lambda>me.
         if TagCreateInput.type data = PLACEMENT \<and> TagCreateInput.auto_load data = True
         then throw autoLoadPlacementError
         else
           await (createTagSkeleton generateTagCode me revision
                    (TagCreateInput.name data) (TagCreateInput.type data)
                    (TagCreateInput.width data) (TagCreateInput.height data)
                    (TagCreateInput.auto_load data) (TagCreateInput.comments data)) (\<lambda>tag.
           resolve (toGQLType tag)))))"

subsection \<open>The table of mutation resolvers\<close>

datatype Args =
  tagCreateInput TagCreateInput
  | tagDuplicateInput TagDuplicateInput
  | tagUpdateInput TagUpdateInput
  | tagDeleteInput TagDeleteInput
  | tagRuleGroupOrderInput TagRuleGroupOrderInput

datatype Result =
  TagResult Tag | BooleanResult bool | AcknowledgementsResult "ModelDeleteAcknowledgement list"

definition gqlExtendedMutationResolvers :: "(nat \<Rightarrow> string) \<Rightarrow> Args \<Rightarrow> CTX \<Rightarrow> Result Promise" where
  "gqlExtendedMutationResolvers generateTagCode args ctx =
     (case args of
        tagRuleGroupOrderInput data \<Rightarrow>
          await (updateRuleGroupsOrder data ctx) (\<lambda>b. resolve (BooleanResult b))
      | tagDeleteInput data \<Rightarrow>
          await (deleteTag deleteModelCascading data ctx) (\<lambda>acks. resolve (AcknowledgementsResult acks))
      | tagUpdateInput data \<Rightarrow>
          await (updateTag data ctx) (\<lambda>b. resolve (BooleanResult b))
      | tagDuplicateInput data \<Rightarrow>
          await (duplicateTag data ctx) (\<lambda>tag. resolve (TagResult tag))
      | tagCreateInput data \<Rightarrow>
          await (createTag generateTagCode data ctx) (\<lambda>tag. resolve (TagResult tag)))"

subsection \<open>Sequences of operations\<close>

text \<open>
  A store is well formed when every tag is stored under its own id and every id in use
  was drawn from the counter, so that a newly drawn id is unused.
\<close>

definition wellFormed :: "Store \<Rightarrow> bool" where
  "wellFormed s \<longleftrightarrow> (\<forall>k t. tags s k = Some t \<longrightarrow> id' t = k \<and> unat (number k) < nextId s)"

text \<open>
  What one request may do to the collection of tags, key by key: leave the entry, delete
  it, replace a tag by one of the same id and tag code, or insert a tag under a newly
  drawn id.
\<close>

definition tagsEvolve :: "Store \<Rightarrow> Store \<Rightarrow> bool" where
  "tagsEvolve s s' \<longleftrightarrow>
     nextId s \<le> nextId s'
     \<and> (\<forall>k. tags s' k = tags s k
            \<or> tags s' k = None
            \<or> (\<exists>t t'. tags s k = Some t \<and> tags s' k = Some t'
                  \<and> id' t' = id' t \<and> tagCode t' = tagCode t)
            \<or> (tags s k = None \<and> nextId s \<le> unat (number k) \<and> unat (number k) < nextId s'
                  \<and> (\<exists>t'. tags s' k = Some t' \<and> id' t' = k)))"

text \<open>
  \<open>duplicatesOf T s ds s'\<close>: from the store \<open>s\<close>, a finite sequence of successful
  \<open>duplicateTag\<close> operations, each on \<open>T\<close> or on a duplicate returned earlier in the
  sequence, has returned the duplicates \<open>ds\<close> in this order and led to the store \<open>s'\<close>.
\<close>

inductive duplicatesOf :: "Tag \<Rightarrow> Store \<Rightarrow> Tag list \<Rightarrow> Store \<Rightarrow> bool" for T s where
  start: "duplicatesOf T s [] s"
| step: "duplicatesOf T s ds s1 \<Longrightarrow> src \<in> set (T # ds) \<Longrightarrow>
         duplicateTag \<lparr>TagDuplicateInput.tag_id = toString (id' src),
                       TagDuplicateInput.name = n\<rparr> ctx s1 = (Inr dup, s2) \<Longrightarrow>
         duplicatesOf T s (ds @ [dup]) s2"

text \<open>A finite sequence of requests to the mutation resolvers, run from a store.\<close>

fun run :: "(nat \<Rightarrow> string) \<Rightarrow> (Args \<times> CTX) list \<Rightarrow> Store \<Rightarrow> Store" where
  "run gen [] s = s"
| "run gen ((args, ctx) # rest) s =
     run gen rest (snd (gqlExtendedMutationResolvers gen args ctx s))"

subsection \<open>Example states\<close>

text \<open>
  A small store for evaluating the resolvers: one organization, a user with every
  capability on it and a user with none, one revision holding four tags, one of them a
  placement that loads automatically, and a tag whose revision does not exist.
\<close>

definition org :: ObjectId where
  "org = ObjectId 100"

definition editor :: CTX where
  "editor = \<lparr>user = User (ObjectId 900), access = (\<lambda>organization level. organization = org)\<rparr>"

definition stranger :: CTX where
  "stranger = \<lparr>user = User (ObjectId 901), access = (\<lambda>organization level. False)\<rparr>"

definition tagT :: Tag where
  "tagT = \<lparr>id' = ObjectId 21, orgId = org, name = ''T'', tagCode = ''abc123'',
           revisionId = ObjectId 50, type = HEAD,
           ruleGroupIds = [ObjectId 11, ObjectId 12, ObjectId 13],
           width = 0, height = 0, autoLoad = False, isActive = True\<rparr>"

definition tagAA :: Tag where
  "tagAA = \<lparr>id' = ObjectId 22, orgId = org, name = ''AA'', tagCode = ''def456'',
            revisionId = ObjectId 50, type = HEAD,
            ruleGroupIds = [ObjectId 11, ObjectId 11],
            width = 0, height = 0, autoLoad = False, isActive = True\<rparr>"

definition tagP :: Tag where
  "tagP = \<lparr>id' = ObjectId 23, orgId = org, name = ''P'', tagCode = ''ghi789'',
           revisionId = ObjectId 50, type = PLACEMENT, ruleGroupIds = [],
           width = 300, height = 250, autoLoad = False, isActive = True\<rparr>"

definition tagOrphan :: Tag where
  "tagOrphan = \<lparr>id' = ObjectId 24, orgId = org, name = ''O'', tagCode = ''jkl012'',
                revisionId = ObjectId 51, type = HEAD, ruleGroupIds = [ObjectId 13],
                width = 0, height = 0, autoLoad = False, isActive = True\<rparr>"

definition tagPA :: Tag where
  "tagPA = \<lparr>id' = ObjectId 25, orgId = org, name = ''PA'', tagCode = ''mno345'',
            revisionId = ObjectId 50, type = PLACEMENT, ruleGroupIds = [],
            width = 300, height = 250, autoLoad = True, isActive = True\<rparr>"

definition revision50 :: Revision where
  "revision50 = \<lparr>id' = ObjectId 50, orgId = org,
                 tagIds = [ObjectId 21, ObjectId 22, ObjectId 23, ObjectId 25]\<rparr>"

definition store0 :: Store where
  "store0 =
     \<lparr>tags = [ObjectId 21 \<mapsto> tagT, ObjectId 22 \<mapsto> tagAA, ObjectId 23 \<mapsto> tagP,
              ObjectId 24 \<mapsto> tagOrphan, ObjectId 25 \<mapsto> tagPA],
      ruleGroups = [ObjectId 11 \<mapsto> \<lparr>id' = ObjectId 11, orgId = org\<rparr>,
                    ObjectId 12 \<mapsto> \<lparr>id' = ObjectId 12, orgId = org\<rparr>,
                    ObjectId 13 \<mapsto> \<lparr>id' = ObjectId 13, orgId = org\<rparr>],
      revisions = [ObjectId 50 \<mapsto> revision50],
      audit = [], nextId = 1000\<rparr>"

text \<open>A cascade that deletes the tag and then fails, before it reaches the children.\<close>

definition failingCascade :: Cascade where
  "failingCascade actor tag previewFlag =
     (\<lambda>s. (Inl (GQLError (Literal ''write failed'') False),
           s\<lparr>tags := (tags s)(id' tag := None)\<rparr>))"

text \<open>A generator of tag codes, and the requests of the examples.\<close>

definition tagCodeOf :: "nat \<Rightarrow> string" where
  "tagCodeOf n = ''code-'' @ replicate n (CHR ''i'')"

definition placementAutoLoad :: TagCreateInput where
  "placementAutoLoad =
     \<lparr>revision_id = ''000000000000000000000032'', TagCreateInput.name = ''slot'', TagCreateInput.type = PLACEMENT,
      TagCreateInput.width = 300, TagCreateInput.height = 250,
      TagCreateInput.auto_load = True, TagCreateInput.comments = None\<rparr>"

definition setAutoLoad :: TagUpdateInput where
  "setAutoLoad =
     \<lparr>TagUpdateInput.tag_id = ''000000000000000000000017'', TagUpdateInput.name = None, is_active = None,
      TagUpdateInput.width = None, TagUpdateInput.height = None,
      TagUpdateInput.auto_load = Some True, TagUpdateInput.comments = None\<rparr>"

definition rename :: TagUpdateInput where
  "rename =
     \<lparr>TagUpdateInput.tag_id = ''000000000000000000000015'',
      TagUpdateInput.name = Some ''renamed'', is_active = None,
      TagUpdateInput.width = Some 5, TagUpdateInput.height = None,
      TagUpdateInput.auto_load = None, TagUpdateInput.comments = Some ''new name''\<rparr>"

definition headAutoLoad :: TagCreateInput where
  "headAutoLoad =
     \<lparr>revision_id = ''000000000000000000000032'', TagCreateInput.name = ''analytics'', TagCreateInput.type = HEAD,
      TagCreateInput.width = 0, TagCreateInput.height = 0,
      TagCreateInput.auto_load = True, TagCreateInput.comments = None\<rparr>"

definition copyOfT :: TagDuplicateInput where
  "copyOfT = \<lparr>TagDuplicateInput.tag_id = ''000000000000000000000015'',
              TagDuplicateInput.name = ''Copy''\<rparr>"

definition renamePA :: TagUpdateInput where
  "renamePA =
     \<lparr>TagUpdateInput.tag_id = ''000000000000000000000019'',
      TagUpdateInput.name = Some ''still loading'', is_active = None,
      TagUpdateInput.width = None, TagUpdateInput.height = None,
      TagUpdateInput.auto_load = None, TagUpdateInput.comments = None\<rparr>"

section \<open>Properties\<close>

subsection \<open>Identifiers and their renderings\<close>

lemma digitOf_hexDigits: "d < 16 \<Longrightarrow> digitOf (hexDigits ! d) = Some d"
proof -
  have "list_all (\<lambda>d. digitOf (hexDigits ! d) = Some d) [0..<16]"
    by code_simp
  moreover assume "d < 16"
  ultimately show ?thesis
    by (simp add: list_all_iff)
qed

lemma length_toHex: "length (toHex k n) = k"
  by (induction k arbitrary: n) simp_all

lemma fromHex_snoc:
  "fromHex (cs @ [c]) =
     (case fromHex cs of
        None \<Rightarrow> None
      | Some a \<Rightarrow> (case digitOf c of None \<Rightarrow> None | Some d \<Rightarrow> Some (16 * a + d)))"
  by (simp add: fromHex_def)

lemma fromHex_toHex: "fromHex (toHex k n) = Some (n mod 16 ^ k)"
proof (induction k arbitrary: n)
  case 0
  show ?case by (simp add: fromHex_def)
next
  case (Suc k)
  have "16 * (n div 16 mod 16 ^ k) + n mod 16 = n mod (16 * 16 ^ k)"
    by (simp add: mod_mult2_eq)
  then show ?case
    by (simp add: fromHex_snoc Suc digitOf_hexDigits)
qed

lemma new_ObjectId_toString: "new_ObjectId (toString i) = Inr i"
proof -
  have "unat (number i) < 2 ^ 96"
    using unsigned_less [of "number i"] by simp
  then have "unat (number i) mod 16 ^ 24 = unat (number i)"
    by simp
  then show ?thesis
    by (cases i) (simp add: new_ObjectId_def toString_def length_toHex fromHex_toHex)
qed

lemma toString_inject: "toString a = toString b \<longleftrightarrow> a = b"
proof
  assume "toString a = toString b"
  then have "new_ObjectId (toString a) = new_ObjectId (toString b)"
    by simp
  then show "a = b"
    by (simp add: new_ObjectId_toString)
qed simp

lemma inj_toString: "inj toString"
  by (simp add: inj_def toString_inject)

lemma map_throws_toString: "map_throws new_ObjectId (map toString ids) = Inr ids"
  by (induction ids) (simp_all add: new_ObjectId_toString)

lemma map_throws_renderings:
  assumes "\<forall>x \<in> set xs. \<exists>r. x = toString r"
  shows "\<exists>ids. map_throws new_ObjectId xs = Inr ids \<and> map toString ids = xs"
proof -
  from assms have "\<exists>ids. xs = map toString ids"
  proof (induction xs)
    case Nil
    show ?case by simp
  next
    case (Cons x xs)
    then obtain r ids where "x = toString r" and "xs = map toString ids"
      by auto
    then have "x # xs = map toString (r # ids)"
      by simp
    then show ?case by (rule exI)
  qed
  then obtain ids where "xs = map toString ids"
    by blast
  then show ?thesis
    by (auto simp: map_throws_toString)
qed

lemma shown:
  "toString (ObjectId 11) = ''00000000000000000000000b''"
  "toString (ObjectId 12) = ''00000000000000000000000c''"
  "toString (ObjectId 13) = ''00000000000000000000000d''"
  "toString (ObjectId 21) = ''000000000000000000000015''"
  "toString (ObjectId 22) = ''000000000000000000000016''"
  "toString (ObjectId 23) = ''000000000000000000000017''"
  "toString (ObjectId 24) = ''000000000000000000000018''"
  "toString (ObjectId 25) = ''000000000000000000000019''"
  "toString (ObjectId 50) = ''000000000000000000000032''"
  by code_simp+

lemma read:
  "new_ObjectId ''00000000000000000000000b'' = Inr (ObjectId 11)"
  "new_ObjectId ''00000000000000000000000c'' = Inr (ObjectId 12)"
  "new_ObjectId ''00000000000000000000000d'' = Inr (ObjectId 13)"
  "new_ObjectId ''00000000000000000000000e'' = Inr (ObjectId 14)"
  "new_ObjectId ''00000000000000000000000B'' = Inr (ObjectId 11)"
  "new_ObjectId ''00000000000000000000000C'' = Inr (ObjectId 12)"
  "new_ObjectId ''00000000000000000000000D'' = Inr (ObjectId 13)"
  "new_ObjectId ''000000000000000000000015'' = Inr (ObjectId 21)"
  "new_ObjectId ''000000000000000000000016'' = Inr (ObjectId 22)"
  "new_ObjectId ''000000000000000000000017'' = Inr (ObjectId 23)"
  "new_ObjectId ''000000000000000000000018'' = Inr (ObjectId 24)"
  "new_ObjectId ''000000000000000000000019'' = Inr (ObjectId 25)"
  "new_ObjectId ''000000000000000000000032'' = Inr (ObjectId 50)"
  by (simp_all add: new_ObjectId_def fromHex_def digitOf_def)

lemma gated_cases:
  assumes "P (Inl BSONTypeError, s)"
    and "P (Inl (GQLError (UserMessage msg) True), s)"
    and "P (Inl (AccessDenied level), s)"
    and "\<And>i m. new_ObjectId idString = Inr i \<Longrightarrow> repo s i = Some m \<Longrightarrow>
           access ctx (orgId m) level \<Longrightarrow> P (body m (user ctx) s)"
  shows "P (await (sync (new_ObjectId idString)) (\<lambda>i.
            await (findByIdThrows repo i msg)
              (\<lambda>m. asUserWithAccess level ctx (orgId m) (body m))) s)"
proof (cases "new_ObjectId idString")
  case (Inl e)
  then have "e = BSONTypeError"
    by (auto simp: new_ObjectId_def split: if_splits option.splits)
  with Inl assms(1) show ?thesis
    by (simp add: await_def sync_def throw_def)
next
  case (Inr i)
  with assms(2-4) show ?thesis
    by (cases "repo s i")
       (auto simp: await_def sync_def resolve_def findByIdThrows_def asUserWithAccess_def throw_def)
qed

subsection \<open>Reordering rule groups\<close>

lemma indexOf_lower: "- 1 \<le> indexOf xs x"
  by (induction xs) (auto simp: Let_def)

lemma indexOf_member: "(indexOf xs x \<noteq> - 1) = (x \<in> set xs)"
proof (induction xs)
  case Nil
  show ?case by simp
next
  case (Cons y ys)
  have "indexOf ys x + 1 \<noteq> - 1"
    using indexOf_lower [of ys x] by arith
  with Cons show ?case by (auto simp: Let_def)
qed

lemma every_indexOf:
  "list_all (\<lambda>x. indexOf new x \<noteq> - 1) (map toString cur)
     = (\<forall>r \<in> set cur. toString r \<in> set new)"
  by (simp add: list_all_iff indexOf_member)

lemma covering_same_length_is_permutation:
  assumes "distinct cur" and "length cur = length new" and "set cur \<subseteq> set new"
  shows "mset new = mset cur"
proof -
  have "card (set cur) = length new"
    using assms(1,2) by (simp add: distinct_card)
  moreover have "card (set cur) \<le> card (set new)"
    using assms(3) by (simp add: card_mono)
  moreover have "card (set new) \<le> length new"
    by (rule card_length)
  ultimately have c: "card (set new) = length new" and "card (set cur) = card (set new)"
    by simp_all
  then have "set cur = set new"
    using assms(3) by (simp add: card_subset_eq)
  moreover from c have "distinct new"
    by (simp add: card_distinct)
  ultimately show ?thesis
    using assms(1) by (simp add: set_eq_iff_mset_eq_distinct)
qed

lemma updateRuleGroupsOrder_found:
  assumes "new_ObjectId (TagRuleGroupOrderInput.tag_id data) = Inr tagId"
    and "tags s tagId = Some tag"
    and "access ctx (orgId tag) EditAccess"
  shows "updateRuleGroupsOrder data ctx s =
     (if length (ruleGroupIds tag) = length (new_order data)
         \<and> (\<forall>r \<in> set (ruleGroupIds tag). toString r \<in> set (new_order data))
      then (case map_throws new_ObjectId (new_order data) of
              Inl e \<Rightarrow> (Inl e, s)
            | Inr ids \<Rightarrow>
                (Inr True,
                 s\<lparr>tags := (tags s)(id' tag \<mapsto> tag\<lparr>ruleGroupIds := ids\<rparr>),
                   audit := audit s @
                     [(id' tag, user ctx, USER,
                       \<lparr>gqlMethod = REORDER_LINKED_ENTITIES, userComments = None,
                        opConnectedModels = map id' (List.map_filter (ruleGroups s) ids)\<rparr>)]\<rparr>))
      else (Inl (GQLError (UserMessage reOrderProblem) True), s))"
  using assms
  by (simp add: updateRuleGroupsOrder_def await_def sync_def findByIdThrows_def
      asUserWithAccess_def every_indexOf findByIds_def save_Tag_def resolve_def throw_def Let_def
      split: sum.splits)

lemma permutation_of_renderings:
  assumes "distinct cur"
  shows "(length cur = length new \<and> (\<forall>r \<in> set cur. toString r \<in> set new))
           \<longleftrightarrow> mset new = mset (map toString cur)"
proof
  assume a: "length cur = length new \<and> (\<forall>r \<in> set cur. toString r \<in> set new)"
  have "distinct (map toString cur)"
    using assms by (simp add: distinct_map inj_on_def toString_inject)
  moreover have "length (map toString cur) = length new"
    using a by simp
  moreover have "set (map toString cur) \<subseteq> set new"
    using a by auto
  ultimately show "mset new = mset (map toString cur)"
    by (rule covering_same_length_is_permutation)
next
  assume p: "mset new = mset (map toString cur)"
  then have "length new = length (map toString cur)"
    by (rule mset_eq_length)
  moreover from p have "set new = set (map toString cur)"
    by (rule mset_eq_setD)
  ultimately show "length cur = length new \<and> (\<forall>r \<in> set cur. toString r \<in> set new)"
    by auto
qed

lemma mset_renderings: "mset (map toString ids) = mset (map toString cur) \<longleftrightarrow> mset ids = mset cur"
proof
  define unrender where "unrender x = (case new_ObjectId x of Inr i \<Rightarrow> i | Inl e \<Rightarrow> ObjectId 0)" for x
  have unrender: "map unrender (map toString xs) = xs" for xs
    by (induction xs) (simp_all add: unrender_def new_ObjectId_toString)
  assume "mset (map toString ids) = mset (map toString cur)"
  then have "mset (map unrender (map toString ids)) = mset (map unrender (map toString cur))"
    by (simp only: mset_map)
  then show "mset ids = mset cur"
    by (simp only: unrender)
qed simp

text \<open>
  Claim C1, as the code has it. For an existing Tag whose \<open>ruleGroupIds\<close> holds no id
  twice (invariant I2) and a caller with edit access, \<open>updateRuleGroupsOrder\<close> returns
  true if and only if \<open>new_order\<close> is a permutation of the renderings of the Tag's current
  \<open>ruleGroupIds\<close>, each as \<open>toString\<close> writes it (24 hexadecimal digits in lower case);
  that is, if and only if \<open>new_order\<close> reads as a permutation of the current ids and writes
  each of them in that form. It then stores the Tag with \<open>ruleGroupIds\<close> replaced by the
  ids of \<open>new_order\<close> in its order; otherwise it fails with the reorder error and the store
  is as before.
\<close>

theorem updateRuleGroupsOrder_permutation_iff:
  assumes "new_ObjectId (TagRuleGroupOrderInput.tag_id data) = Inr tagId"
    and "tags s tagId = Some tag"
    and "access ctx (orgId tag) EditAccess"
    and "distinct (ruleGroupIds tag)"
  shows "(fst (updateRuleGroupsOrder data ctx s) = Inr True
            \<longleftrightarrow> mset (new_order data) = mset (map toString (ruleGroupIds tag)))
       \<and> (mset (new_order data) = mset (map toString (ruleGroupIds tag))
            \<longleftrightarrow> (\<exists>ids. map_throws new_ObjectId (new_order data) = Inr ids
                   \<and> mset ids = mset (ruleGroupIds tag) \<and> map toString ids = new_order data))
       \<and> (mset (new_order data) = mset (map toString (ruleGroupIds tag)) \<longrightarrow>
            (\<exists>ids. map toString ids = new_order data \<and> mset ids = mset (ruleGroupIds tag)
               \<and> tags (snd (updateRuleGroupsOrder data ctx s))
                    = (tags s)(id' tag \<mapsto> tag\<lparr>ruleGroupIds := ids\<rparr>)))
       \<and> (mset (new_order data) \<noteq> mset (map toString (ruleGroupIds tag)) \<longrightarrow>
            updateRuleGroupsOrder data ctx s = (Inl (GQLError (UserMessage reOrderProblem) True), s))"
proof -
  let ?new = "new_order data" and ?cur = "ruleGroupIds tag"
  let ?accepted = "length ?cur = length ?new \<and> (\<forall>r \<in> set ?cur. toString r \<in> set ?new)"
  note found = updateRuleGroupsOrder_found [OF assms(1-3)]
  have accepted: "?accepted \<longleftrightarrow> mset ?new = mset (map toString ?cur)"
    using assms(4) by (rule permutation_of_renderings)
  have reads: "\<exists>ids. map_throws new_ObjectId ?new = Inr ids \<and> map toString ids = ?new
                  \<and> mset ids = mset ?cur"
    if p: "mset ?new = mset (map toString ?cur)"
  proof -
    from p have "set ?new = set (map toString ?cur)"
      by (rule mset_eq_setD)
    then have "\<forall>x \<in> set ?new. \<exists>r. x = toString r"
      by auto
    then obtain ids where ids: "map_throws new_ObjectId ?new = Inr ids" "map toString ids = ?new"
      using map_throws_renderings by blast
    with p have "mset (map toString ids) = mset (map toString ?cur)"
      by simp
    then have "mset ids = mset ?cur"
      by (simp only: mset_renderings)
    with ids show ?thesis by blast
  qed
  have iff2: "mset ?new = mset (map toString ?cur)
            \<longleftrightarrow> (\<exists>ids. map_throws new_ObjectId ?new = Inr ids
                   \<and> mset ids = mset ?cur \<and> map toString ids = ?new)"
  proof
    assume "mset ?new = mset (map toString ?cur)"
    with reads show "\<exists>ids. map_throws new_ObjectId ?new = Inr ids
                   \<and> mset ids = mset ?cur \<and> map toString ids = ?new"
      by blast
  next
    assume "\<exists>ids. map_throws new_ObjectId ?new = Inr ids
                   \<and> mset ids = mset ?cur \<and> map toString ids = ?new"
    then obtain ids where perm: "mset ids = mset ?cur" and same: "map toString ids = ?new"
      by blast
    from perm have "mset (map toString ids) = mset (map toString ?cur)"
      by (simp only: mset_renderings)
    then show "mset ?new = mset (map toString ?cur)"
      by (simp only: same)
  qed
  have no: "updateRuleGroupsOrder data ctx s = (Inl (GQLError (UserMessage reOrderProblem) True), s)"
    if n: "mset ?new \<noteq> mset (map toString ?cur)"
  proof -
    from n accepted have "\<not> ?accepted"
      by blast
    then show ?thesis
      unfolding found by (rule if_not_P)
  qed
  have yes: "fst (updateRuleGroupsOrder data ctx s) = Inr True
       \<and> (\<exists>ids. map toString ids = ?new \<and> mset ids = mset ?cur
               \<and> tags (snd (updateRuleGroupsOrder data ctx s))
                    = (tags s)(id' tag \<mapsto> tag\<lparr>ruleGroupIds := ids\<rparr>))"
    if p: "mset ?new = mset (map toString ?cur)"
  proof -
    from reads [OF p] obtain ids where ids: "map_throws new_ObjectId ?new = Inr ids"
      and same: "map toString ids = ?new" and perm: "mset ids = mset ?cur"
      by blast
    from p accepted have ?accepted
      by blast
    then have "updateRuleGroupsOrder data ctx s =
        (case map_throws new_ObjectId ?new of
              Inl e \<Rightarrow> (Inl e, s)
            | Inr ids \<Rightarrow>
                (Inr True,
                 s\<lparr>tags := (tags s)(id' tag \<mapsto> tag\<lparr>ruleGroupIds := ids\<rparr>),
                   audit := audit s @
                     [(id' tag, user ctx, USER,
                       \<lparr>gqlMethod = REORDER_LINKED_ENTITIES, userComments = None,
                        opConnectedModels = map id' (List.map_filter (ruleGroups s) ids)\<rparr>)]\<rparr>))"
      unfolding found by (rule if_P)
    then have "fst (updateRuleGroupsOrder data ctx s) = Inr True"
      and "tags (snd (updateRuleGroupsOrder data ctx s))
             = (tags s)(id' tag \<mapsto> tag\<lparr>ruleGroupIds := ids\<rparr>)"
      by (simp_all add: ids)
    with same perm show ?thesis
      by blast
  qed
  have iff1: "fst (updateRuleGroupsOrder data ctx s) = Inr True
            \<longleftrightarrow> mset ?new = mset (map toString ?cur)"
    using yes no by (cases "mset ?new = mset (map toString ?cur)") auto
  from iff1 iff2 yes no show ?thesis
    by blast
qed

theorem updateRuleGroupsOrder_permutation_iff_witness:
  "new_ObjectId ''000000000000000000000015'' = Inr (ObjectId 21)
   \<and> tags store0 (ObjectId 21) = Some tagT \<and> access editor (orgId tagT) EditAccess
   \<and> distinct (ruleGroupIds tagT)
   \<and> fst (updateRuleGroupsOrder
             \<lparr>tag_id = ''000000000000000000000015'',
              new_order = [''00000000000000000000000d'', ''00000000000000000000000b'',
                           ''00000000000000000000000c'']\<rparr> editor store0) = Inr True
   \<and> map_option ruleGroupIds
       (tags (snd (updateRuleGroupsOrder
                     \<lparr>tag_id = ''000000000000000000000015'',
                      new_order = [''00000000000000000000000d'', ''00000000000000000000000b'',
                                   ''00000000000000000000000c'']\<rparr> editor store0))
          (ObjectId 21)) = Some [ObjectId 13, ObjectId 11, ObjectId 12]
   \<and> updateRuleGroupsOrder
         \<lparr>tag_id = ''000000000000000000000015'',
          new_order = [''00000000000000000000000b'', ''00000000000000000000000c'']\<rparr>
         editor store0
       = (Inl (GQLError (UserMessage reOrderProblem) True), store0)
   \<and> updateRuleGroupsOrder
         \<lparr>tag_id = ''000000000000000000000015'',
          new_order = [''00000000000000000000000b'', ''00000000000000000000000c'',
                       ''00000000000000000000000e'']\<rparr> editor store0
       = (Inl (GQLError (UserMessage reOrderProblem) True), store0)"
proof -
  let ?b = "''00000000000000000000000b''" and ?c = "''00000000000000000000000c''"
  let ?d = "''00000000000000000000000d''" and ?e = "''00000000000000000000000e''"
  have named: "new_ObjectId (TagRuleGroupOrderInput.tag_id
                  \<lparr>tag_id = ''000000000000000000000015'', new_order = xs\<rparr>) = Inr (ObjectId 21)" for xs
    by (simp add: read)
  have found: "tags store0 (ObjectId 21) = Some tagT"
    by (simp add: store0_def)
  have edit: "access editor (orgId tagT) EditAccess"
    by (simp add: editor_def tagT_def)
  have I2: "distinct (ruleGroupIds tagT)"
    by (simp add: tagT_def)
  note inst = updateRuleGroupsOrder_permutation_iff [OF named found edit I2,
      unfolded TagRuleGroupOrderInput.select_convs]
  note accepts = inst [THEN conjunct1]
    and installs = inst [THEN conjunct2, THEN conjunct2, THEN conjunct1]
    and rejects = inst [THEN conjunct2, THEN conjunct2, THEN conjunct2]
  have renderings: "map toString (ruleGroupIds tagT) = [?b, ?c, ?d]"
    by (simp add: tagT_def shown)
  have p: "mset [?d, ?b, ?c] = mset (map toString (ruleGroupIds tagT))"
    unfolding renderings by simp
  from accepts [of "[?d, ?b, ?c]"] p
  have ok: "fst (updateRuleGroupsOrder
             \<lparr>tag_id = ''000000000000000000000015'', new_order = [?d, ?b, ?c]\<rparr> editor store0)
           = Inr True"
    by (rule iffD2)
  from installs [of "[?d, ?b, ?c]"] p
  have "\<exists>ids. map toString ids = [?d, ?b, ?c] \<and> mset ids = mset (ruleGroupIds tagT)
               \<and> tags (snd (updateRuleGroupsOrder
                     \<lparr>tag_id = ''000000000000000000000015'', new_order = [?d, ?b, ?c]\<rparr>
                     editor store0))
                    = (tags store0)(id' tagT \<mapsto> tagT\<lparr>ruleGroupIds := ids\<rparr>)"
    by (rule mp)
  then obtain ids where ids: "map toString ids = [?d, ?b, ?c]"
    and stored: "tags (snd (updateRuleGroupsOrder
             \<lparr>tag_id = ''000000000000000000000015'', new_order = [?d, ?b, ?c]\<rparr> editor store0))
           = (tags store0)(id' tagT \<mapsto> tagT\<lparr>ruleGroupIds := ids\<rparr>)"
    by (elim conjE exE) (rule that)
  from ids have "map toString ids = map toString [ObjectId 13, ObjectId 11, ObjectId 12]"
    by (simp add: shown)
  then have "ids = [ObjectId 13, ObjectId 11, ObjectId 12]"
    using inj_toString by (simp only: inj_map_eq_map)
  with stored have installed: "map_option ruleGroupIds
       (tags (snd (updateRuleGroupsOrder
             \<lparr>tag_id = ''000000000000000000000015'', new_order = [?d, ?b, ?c]\<rparr> editor store0))
          (ObjectId 21)) = Some [ObjectId 13, ObjectId 11, ObjectId 12]"
    by (simp add: tagT_def)
  have "mset [?b, ?c] \<noteq> mset (map toString (ruleGroupIds tagT))"
    unfolding renderings by simp
  with rejects [of "[?b, ?c]"] have short: "updateRuleGroupsOrder
         \<lparr>tag_id = ''000000000000000000000015'', new_order = [?b, ?c]\<rparr> editor store0
       = (Inl (GQLError (UserMessage reOrderProblem) True), store0)"
    by (rule mp)
  have "mset [?b, ?c, ?e] \<noteq> mset (map toString (ruleGroupIds tagT))"
    unfolding renderings by simp
  with rejects [of "[?b, ?c, ?e]"] have foreign: "updateRuleGroupsOrder
         \<lparr>tag_id = ''000000000000000000000015'', new_order = [?b, ?c, ?e]\<rparr> editor store0
       = (Inl (GQLError (UserMessage reOrderProblem) True), store0)"
    by (rule mp)
  from read(8) found edit I2 ok installed short foreign show ?thesis
    by (intro conjI)
qed

text \<open>
  Claim C1 as stated fails in two ways. Without I2: on a Tag with \<open>ruleGroupIds = [11, 11]\<close>
  the order of the ids \<open>[11, 12]\<close>, which is no permutation, is accepted and stored. And on
  renderings: for the Tag with \<open>ruleGroupIds = [11, 12, 13]\<close> the order \<open>[13, 11, 12]\<close>
  written with upper-case digits reads as a permutation of the current ids, and is
  rejected with the reorder error.
\<close>

theorem updateRuleGroupsOrder_permutation_counterexample:
  "tags store0 (ObjectId 22) = Some tagAA \<and> access editor (orgId tagAA) EditAccess
   \<and> ruleGroupIds tagAA = [ObjectId 11, ObjectId 11]
   \<and> map_throws new_ObjectId [''00000000000000000000000b'', ''00000000000000000000000c'']
       = Inr [ObjectId 11, ObjectId 12]
   \<and> mset [ObjectId 11, ObjectId 12] \<noteq> mset (ruleGroupIds tagAA)
   \<and> fst (updateRuleGroupsOrder
             \<lparr>tag_id = ''000000000000000000000016'',
              new_order = [''00000000000000000000000b'', ''00000000000000000000000c'']\<rparr>
             editor store0) = Inr True
   \<and> map_option ruleGroupIds
       (tags (snd (updateRuleGroupsOrder
                     \<lparr>tag_id = ''000000000000000000000016'',
                      new_order = [''00000000000000000000000b'', ''00000000000000000000000c'']\<rparr>
                     editor store0))
          (ObjectId 22)) = Some [ObjectId 11, ObjectId 12]
   \<and> tags store0 (ObjectId 21) = Some tagT \<and> access editor (orgId tagT) EditAccess
   \<and> distinct (ruleGroupIds tagT)
   \<and> map_throws new_ObjectId [''00000000000000000000000D'', ''00000000000000000000000B'',
                               ''00000000000000000000000C'']
       = Inr [ObjectId 13, ObjectId 11, ObjectId 12]
   \<and> mset [ObjectId 13, ObjectId 11, ObjectId 12] = mset (ruleGroupIds tagT)
   \<and> updateRuleGroupsOrder
         \<lparr>tag_id = ''000000000000000000000015'',
          new_order = [''00000000000000000000000D'', ''00000000000000000000000B'',
                       ''00000000000000000000000C'']\<rparr> editor store0
       = (Inl (GQLError (UserMessage reOrderProblem) True), store0)"
proof -
  have namedAA: "new_ObjectId (TagRuleGroupOrderInput.tag_id
                  \<lparr>tag_id = ''000000000000000000000016'', new_order = xs\<rparr>) = Inr (ObjectId 22)" for xs
    by (simp add: read)
  have foundAA: "tags store0 (ObjectId 22) = Some tagAA"
    by (simp add: store0_def)
  have editAA: "access editor (orgId tagAA) EditAccess"
    by (simp add: editor_def tagAA_def)
  have dup: "ruleGroupIds tagAA = [ObjectId 11, ObjectId 11]"
    by (simp add: tagAA_def)
  have readAB: "map_throws new_ObjectId [''00000000000000000000000b'', ''00000000000000000000000c'']
       = Inr [ObjectId 11, ObjectId 12]"
    by (simp add: read)
  have noperm: "mset [ObjectId 11, ObjectId 12] \<noteq> mset (ruleGroupIds tagAA)"
    by (simp add: dup)
  have accepted: "fst (updateRuleGroupsOrder
             \<lparr>tag_id = ''000000000000000000000016'',
              new_order = [''00000000000000000000000b'', ''00000000000000000000000c'']\<rparr>
             editor store0) = Inr True"
    and installed: "map_option ruleGroupIds
       (tags (snd (updateRuleGroupsOrder
                     \<lparr>tag_id = ''000000000000000000000016'',
                      new_order = [''00000000000000000000000b'', ''00000000000000000000000c'']\<rparr>
                     editor store0))
          (ObjectId 22)) = Some [ObjectId 11, ObjectId 12]"
    by (simp_all add: updateRuleGroupsOrder_found [OF namedAA foundAA editAA] dup shown read)
       (simp_all add: tagAA_def)
  have namedT: "new_ObjectId (TagRuleGroupOrderInput.tag_id
                  \<lparr>tag_id = ''000000000000000000000015'', new_order = xs\<rparr>) = Inr (ObjectId 21)" for xs
    by (simp add: read)
  have foundT: "tags store0 (ObjectId 21) = Some tagT"
    by (simp add: store0_def)
  have editT: "access editor (orgId tagT) EditAccess"
    by (simp add: editor_def tagT_def)
  have I2: "distinct (ruleGroupIds tagT)"
    by (simp add: tagT_def)
  have cur: "ruleGroupIds tagT = [ObjectId 11, ObjectId 12, ObjectId 13]"
    by (simp add: tagT_def)
  have readUpper: "map_throws new_ObjectId [''00000000000000000000000D'',
        ''00000000000000000000000B'', ''00000000000000000000000C'']
       = Inr [ObjectId 13, ObjectId 11, ObjectId 12]"
    by (simp add: read)
  have perm: "mset [ObjectId 13, ObjectId 11, ObjectId 12] = mset (ruleGroupIds tagT)"
    by (simp add: cur)
  have rejected: "updateRuleGroupsOrder
         \<lparr>tag_id = ''000000000000000000000015'',
          new_order = [''00000000000000000000000D'', ''00000000000000000000000B'',
                       ''00000000000000000000000C'']\<rparr> editor store0
       = (Inl (GQLError (UserMessage reOrderProblem) True), store0)"
    by (simp add: updateRuleGroupsOrder_found [OF namedT foundT editT] cur shown)
  from foundAA editAA dup readAB noperm accepted installed foundT editT I2 readUpper perm rejected
  show ?thesis
    by (intro conjI)
qed

text \<open>
  Claim C9. The validation of \<open>updateRuleGroupsOrder\<close> fails with the reorder error exactly
  when the lengths differ or some element of the current \<open>ruleGroupIds\<close> does not occur in
  \<open>new_order\<close>; the converse is not checked, and the resolver returns true whenever the
  validation passes and \<open>new ObjectId\<close> reads every element of \<open>new_order\<close>. Hence there is
  a Tag with \<open>ruleGroupIds = [a, a]\<close> for which the order \<open>[a, b]\<close>, not a permutation of the
  current list, is accepted and installs the id \<open>b\<close> that was not linked before.
\<close>

theorem updateRuleGroupsOrder_coverage_only:
  assumes "new_ObjectId (TagRuleGroupOrderInput.tag_id data) = Inr tagId"
    and "tags s tagId = Some tag"
    and "access ctx (orgId tag) EditAccess"
  shows "(fst (updateRuleGroupsOrder data ctx s) = Inl (GQLError (UserMessage reOrderProblem) True)
            \<longleftrightarrow> \<not> (length (ruleGroupIds tag) = length (new_order data)
                    \<and> (\<forall>r \<in> set (ruleGroupIds tag). toString r \<in> set (new_order data))))
       \<and> (fst (updateRuleGroupsOrder data ctx s) = Inr True
            \<longleftrightarrow> length (ruleGroupIds tag) = length (new_order data)
                 \<and> (\<forall>r \<in> set (ruleGroupIds tag). toString r \<in> set (new_order data))
                 \<and> (\<exists>ids. map_throws new_ObjectId (new_order data) = Inr ids))
       \<and> (\<exists>a b data' ctx' s' tag'.
            new_ObjectId (TagRuleGroupOrderInput.tag_id data') = Inr (id' tag')
            \<and> tags s' (id' tag') = Some tag'
            \<and> ruleGroupIds tag' = [a, a]
            \<and> new_order data' = [toString a, toString b]
            \<and> mset [a, b] \<noteq> mset (ruleGroupIds tag')
            \<and> b \<notin> set (ruleGroupIds tag')
            \<and> fst (updateRuleGroupsOrder data' ctx' s') = Inr True
            \<and> map_option ruleGroupIds
                (tags (snd (updateRuleGroupsOrder data' ctx' s')) (id' tag')) = Some [a, b])"
proof (intro conjI)
  note found = updateRuleGroupsOrder_found [OF assms]
  have typeError: "e = BSONTypeError" if "map_throws new_ObjectId xs = Inl e" for xs e
    using that
    by (induction xs)
       (auto simp: new_ObjectId_def split: sum.splits if_splits option.splits)
  show "fst (updateRuleGroupsOrder data ctx s) = Inl (GQLError (UserMessage reOrderProblem) True)
            \<longleftrightarrow> \<not> (length (ruleGroupIds tag) = length (new_order data)
                    \<and> (\<forall>r \<in> set (ruleGroupIds tag). toString r \<in> set (new_order data)))"
    by (auto simp: found split: sum.splits dest: typeError)
  show "fst (updateRuleGroupsOrder data ctx s) = Inr True
            \<longleftrightarrow> length (ruleGroupIds tag) = length (new_order data)
                 \<and> (\<forall>r \<in> set (ruleGroupIds tag). toString r \<in> set (new_order data))
                 \<and> (\<exists>ids. map_throws new_ObjectId (new_order data) = Inr ids)"
    by (auto simp: found split: sum.splits)
next
  let ?data = "\<lparr>tag_id = ''000000000000000000000016'',
                new_order = [''00000000000000000000000b'', ''00000000000000000000000c'']\<rparr>"
  have named: "new_ObjectId (TagRuleGroupOrderInput.tag_id ?data) = Inr (ObjectId 22)"
    by (simp add: read)
  have stored: "tags store0 (ObjectId 22) = Some tagAA"
    by (simp add: store0_def)
  have edit: "access editor (orgId tagAA) EditAccess"
    by (simp add: editor_def tagAA_def)
  have key: "id' tagAA = ObjectId 22" and dup: "ruleGroupIds tagAA = [ObjectId 11, ObjectId 11]"
    by (simp_all add: tagAA_def)
  have "fst (updateRuleGroupsOrder ?data editor store0) = Inr True"
    and "map_option ruleGroupIds
           (tags (snd (updateRuleGroupsOrder ?data editor store0)) (id' tagAA))
         = Some [ObjectId 11, ObjectId 12]"
    by (simp_all add: updateRuleGroupsOrder_found [OF named stored edit] dup shown read)
  moreover have "new_order ?data = [toString (ObjectId 11), toString (ObjectId 12)]"
    by (simp add: shown)
  moreover have "mset [ObjectId 11, ObjectId 12] \<noteq> mset (ruleGroupIds tagAA)"
    and "ObjectId 12 \<notin> set (ruleGroupIds tagAA)"
    by (simp_all add: dup)
  ultimately have "new_ObjectId (TagRuleGroupOrderInput.tag_id ?data) = Inr (id' tagAA)
            \<and> tags store0 (id' tagAA) = Some tagAA
            \<and> ruleGroupIds tagAA = [ObjectId 11, ObjectId 11]
            \<and> new_order ?data = [toString (ObjectId 11), toString (ObjectId 12)]
            \<and> mset [ObjectId 11, ObjectId 12] \<noteq> mset (ruleGroupIds tagAA)
            \<and> ObjectId 12 \<notin> set (ruleGroupIds tagAA)
            \<and> fst (updateRuleGroupsOrder ?data editor store0) = Inr True
            \<and> map_option ruleGroupIds
                (tags (snd (updateRuleGroupsOrder ?data editor store0)) (id' tagAA))
                = Some [ObjectId 11, ObjectId 12]"
    using named stored dup by (simp only: key simp_thms)
  then show "\<exists>a b data' ctx' s' tag'.
            new_ObjectId (TagRuleGroupOrderInput.tag_id data') = Inr (id' tag')
            \<and> tags s' (id' tag') = Some tag'
            \<and> ruleGroupIds tag' = [a, a]
            \<and> new_order data' = [toString a, toString b]
            \<and> mset [a, b] \<noteq> mset (ruleGroupIds tag')
            \<and> b \<notin> set (ruleGroupIds tag')
            \<and> fst (updateRuleGroupsOrder data' ctx' s') = Inr True
            \<and> map_option ruleGroupIds
                (tags (snd (updateRuleGroupsOrder data' ctx' s')) (id' tag')) = Some [a, b]"
    by (intro exI)
qed

theorem updateRuleGroupsOrder_coverage_only_witness:
  "new_ObjectId ''000000000000000000000016'' = Inr (ObjectId 22)
   \<and> tags store0 (ObjectId 22) = Some tagAA \<and> access editor (orgId tagAA) EditAccess
   \<and> fst (updateRuleGroupsOrder
             \<lparr>tag_id = ''000000000000000000000016'',
              new_order = [''00000000000000000000000b'', ''00000000000000000000000d'']\<rparr>
             editor store0) = Inr True
   \<and> fst (updateRuleGroupsOrder
             \<lparr>tag_id = ''000000000000000000000016'',
              new_order = [''00000000000000000000000c'', ''00000000000000000000000d'']\<rparr>
             editor store0) = Inl (GQLError (UserMessage reOrderProblem) True)"
proof -
  have named: "new_ObjectId (TagRuleGroupOrderInput.tag_id
                  \<lparr>tag_id = ''000000000000000000000016'', new_order = xs\<rparr>) = Inr (ObjectId 22)" for xs
    by (simp add: read)
  have found: "tags store0 (ObjectId 22) = Some tagAA"
    by (simp add: store0_def)
  have edit: "access editor (orgId tagAA) EditAccess"
    by (simp add: editor_def tagAA_def)
  note inst = updateRuleGroupsOrder_coverage_only [OF named found edit,
      unfolded TagRuleGroupOrderInput.select_convs]
  have dup: "ruleGroupIds tagAA = [ObjectId 11, ObjectId 11]"
    by (simp add: tagAA_def)
  have "length (ruleGroupIds tagAA)
          = length [''00000000000000000000000b'', ''00000000000000000000000d'']
        \<and> (\<forall>r \<in> set (ruleGroupIds tagAA).
              toString r \<in> set [''00000000000000000000000b'', ''00000000000000000000000d''])
        \<and> (\<exists>ids. map_throws new_ObjectId
                    [''00000000000000000000000b'', ''00000000000000000000000d''] = Inr ids)"
    by (simp add: dup shown read)
  with inst [of "[''00000000000000000000000b'', ''00000000000000000000000d'']",
      THEN conjunct2, THEN conjunct1]
  have yes: "fst (updateRuleGroupsOrder
             \<lparr>tag_id = ''000000000000000000000016'',
              new_order = [''00000000000000000000000b'', ''00000000000000000000000d'']\<rparr>
             editor store0) = Inr True"
    by (rule iffD2)
  have "\<not> (length (ruleGroupIds tagAA)
          = length [''00000000000000000000000c'', ''00000000000000000000000d'']
        \<and> (\<forall>r \<in> set (ruleGroupIds tagAA).
              toString r \<in> set [''00000000000000000000000c'', ''00000000000000000000000d'']))"
    by (simp add: dup shown)
  with inst [of "[''00000000000000000000000c'', ''00000000000000000000000d'']", THEN conjunct1]
  have no: "fst (updateRuleGroupsOrder
             \<lparr>tag_id = ''000000000000000000000016'',
              new_order = [''00000000000000000000000c'', ''00000000000000000000000d'']\<rparr>
             editor store0) = Inl (GQLError (UserMessage reOrderProblem) True)"
    by (rule iffD2)
  from read(9) found edit yes no show ?thesis
    by (intro conjI)
qed

subsection \<open>Deleting a tag\<close>

lemma deleteTag_preview:
  assumes "new_ObjectId (TagDeleteInput.tag_id data) = Inr tagId"
    and "tags s tagId = Some tag"
    and "access ctx (orgId tag) DeleteAccess"
    and "preview data"
  shows "deleteTag cascade data ctx s = cascade (user ctx) tag True s"
  using assms
  by (simp add: deleteTag_def await_def sync_def findByIdThrows_def asUserWithAccess_def resolve_def)

lemma deleteTag_commit:
  assumes "new_ObjectId (TagDeleteInput.tag_id data) = Inr tagId"
    and "tags s tagId = Some tag"
    and "access ctx (orgId tag) DeleteAccess"
    and "\<not> preview data"
    and "revisions s (revisionId tag) = Some revision"
  shows "deleteTag cascade data ctx s
           = cascade (user ctx) tag False (unlinked (user ctx) data tag revision s)"
  using assms
  by (simp add: deleteTag_def await_def sync_def findByIdThrows_def asUserWithAccess_def resolve_def
      save_Revision_def unlinked_def)

lemma deleteTag_no_revision:
  assumes "new_ObjectId (TagDeleteInput.tag_id data) = Inr tagId"
    and "tags s tagId = Some tag"
    and "access ctx (orgId tag) DeleteAccess"
    and "\<not> preview data"
    and "revisions s (revisionId tag) = None"
  shows "deleteTag cascade data ctx s = (Inl (GQLError (UserMessage revisionFailed) True), s)"
  using assms
  by (simp add: deleteTag_def await_def sync_def findByIdThrows_def asUserWithAccess_def resolve_def)

lemma deleteModelCascading_preview:
  "\<exists>acks. deleteModelCascading actor tag True s = (Inr acks, s)"
  by (simp add: deleteModelCascading_def Let_def)

lemma deleteModelCascading_revisions:
  "revisions (snd (deleteModelCascading actor tag previewFlag s)) = revisions s"
  by (simp add: deleteModelCascading_def Let_def)

lemma deleteModelCascading_acks:
  "ruleGroups s' = ruleGroups s \<Longrightarrow>
   fst (deleteModelCascading actor tag p s') = fst (deleteModelCascading actor tag q s)"
  by (simp add: deleteModelCascading_def Let_def)

text \<open>
  Claim C3. In a delete that is not a preview, on an existing Tag whose Revision exists,
  the cascade is invoked on the store in which the Revision is already saved with the
  Tag's id filtered out of \<open>tagIds\<close>. Consequently, for every cascade that does not write
  revisions, whatever the outcome of the cascade (success, or a failure part way through),
  the Tag's id is absent from its former Revision's \<open>tagIds\<close> afterwards.
\<close>

theorem deleteTag_unlinks_before_cascade:
  assumes "new_ObjectId (TagDeleteInput.tag_id data) = Inr tagId"
    and "tags s tagId = Some tag"
    and "access ctx (orgId tag) DeleteAccess"
    and "\<not> preview data"
    and "revisions s (revisionId tag) = Some revision"
    and "id' revision = revisionId tag"
  shows "deleteTag cascade data ctx s
           = cascade (user ctx) tag False (unlinked (user ctx) data tag revision s)
       \<and> revisions (unlinked (user ctx) data tag revision s) (revisionId tag)
           = Some (revision\<lparr>tagIds := filter (\<lambda>x. x \<noteq> id' tag) (tagIds revision)\<rparr>)
       \<and> ((\<forall>s0. revisions (snd (cascade (user ctx) tag False s0)) = revisions s0) \<longrightarrow>
            (\<exists>revision'. revisions (snd (deleteTag cascade data ctx s)) (revisionId tag) = Some revision'
                \<and> id' tag \<notin> set (tagIds revision')))"
  using assms
  by (simp add: deleteTag_commit [OF assms(1-5)]) (simp add: unlinked_def)


theorem deleteTag_unlinks_before_cascade_witness:
  "tags store0 (ObjectId 21) = Some tagT \<and> access editor (orgId tagT) DeleteAccess
   \<and> revisions store0 (revisionId tagT) = Some revision50 \<and> id' revision50 = revisionId tagT
   \<and> (\<forall>s0. revisions (snd (deleteModelCascading (user editor) tagT False s0)) = revisions s0)
   \<and> (\<forall>s0. revisions (snd (failingCascade (user editor) tagT False s0)) = revisions s0)
   \<and> (\<exists>revision'.
         revisions (snd (deleteTag deleteModelCascading
                           \<lparr>TagDeleteInput.tag_id = ''000000000000000000000015'', preview = False, TagDeleteInput.comments = None\<rparr> editor store0))
           (ObjectId 50) = Some revision'
         \<and> ObjectId 21 \<notin> set (tagIds revision'))
   \<and> (\<exists>revision'.
         revisions (snd (deleteTag failingCascade
                           \<lparr>TagDeleteInput.tag_id = ''000000000000000000000015'', preview = False, TagDeleteInput.comments = None\<rparr> editor store0))
           (ObjectId 50) = Some revision'
         \<and> ObjectId 21 \<notin> set (tagIds revision'))
   \<and> isl (fst (deleteTag failingCascade
                  \<lparr>TagDeleteInput.tag_id = ''000000000000000000000015'', preview = False, TagDeleteInput.comments = None\<rparr> editor store0))"
proof -
  let ?data = "\<lparr>TagDeleteInput.tag_id = ''000000000000000000000015'', preview = False, TagDeleteInput.comments = None\<rparr>"
  have named: "new_ObjectId (TagDeleteInput.tag_id ?data) = Inr (id' tagT)"
    by (simp add: read tagT_def)
  have found: "tags store0 (id' tagT) = Some tagT"
    by (simp add: store0_def tagT_def)
  have may: "access editor (orgId tagT) DeleteAccess"
    by (simp add: editor_def tagT_def)
  have commit: "\<not> preview ?data"
    by simp
  have rev: "revisions store0 (revisionId tagT) = Some revision50"
    by (simp add: store0_def tagT_def)
  have key: "id' revision50 = revisionId tagT"
    by (simp add: revision50_def tagT_def)
  have frame1: "\<forall>s0. revisions (snd (deleteModelCascading (user editor) tagT False s0)) = revisions s0"
    by (simp add: deleteModelCascading_revisions)
  have frame2: "\<forall>s0. revisions (snd (failingCascade (user editor) tagT False s0)) = revisions s0"
    by (simp add: failingCascade_def)
  have failed: "isl (fst (failingCascade actor tag p s))" for actor tag p s
    by (simp add: failingCascade_def)
  have "tags store0 (ObjectId 21) = Some tagT"
    by (simp add: store0_def)
  moreover have "revisionId tagT = ObjectId 50" "id' tagT = ObjectId 21"
    by (simp_all add: tagT_def)
  ultimately show ?thesis
    using deleteTag_unlinks_before_cascade [OF named found may commit rev key, of deleteModelCascading]
      deleteTag_unlinks_before_cascade [OF named found may commit rev key, of failingCascade]
      may rev key frame1 frame2 failed
    by simp
qed

text \<open>
  Claim C5, as the code has it. A delete with \<open>preview = true\<close> on an existing Tag leaves
  the whole store (the Tag, its Revision, all children, the audit trail) unchanged and
  succeeds; when the Tag's Revision exists, it returns the sequence of acknowledgements
  that the same delete without \<open>preview\<close> returns from the same store.
\<close>

theorem deleteTag_preview_no_write:
  assumes "new_ObjectId (TagDeleteInput.tag_id data) = Inr tagId"
    and "tags s tagId = Some tag"
    and "access ctx (orgId tag) DeleteAccess"
    and "preview data"
  shows "snd (deleteTag deleteModelCascading data ctx s) = s
       \<and> (\<exists>acks. fst (deleteTag deleteModelCascading data ctx s) = Inr acks)
       \<and> (\<forall>revision. revisions s (revisionId tag) = Some revision \<longrightarrow>
            fst (deleteTag deleteModelCascading data ctx s)
              = fst (deleteTag deleteModelCascading (data\<lparr>preview := False\<rparr>) ctx s))"
proof -
  obtain acks where p: "deleteModelCascading (user ctx) tag True s = (Inr acks, s)"
    using deleteModelCascading_preview by blast
  have "fst (deleteTag deleteModelCascading data ctx s)
          = fst (deleteTag deleteModelCascading (data\<lparr>preview := False\<rparr>) ctx s)"
    if r: "revisions s (revisionId tag) = Some revision" for revision
  proof -
    have "deleteTag deleteModelCascading (data\<lparr>preview := False\<rparr>) ctx s
            = deleteModelCascading (user ctx) tag False
                (unlinked (user ctx) (data\<lparr>preview := False\<rparr>) tag revision s)"
      using assms(1-3) r by (intro deleteTag_commit) simp_all
    moreover have "ruleGroups (unlinked (user ctx) (data\<lparr>preview := False\<rparr>) tag revision s)
                     = ruleGroups s"
      by (simp add: unlinked_def)
    ultimately show ?thesis
      by (simp add: deleteTag_preview [OF assms] deleteModelCascading_acks)
  qed
  then show ?thesis
    by (simp add: deleteTag_preview [OF assms] p)
qed

theorem deleteTag_preview_no_write_witness:
  "tags store0 (ObjectId 21) = Some tagT \<and> access editor (orgId tagT) DeleteAccess
   \<and> revisions store0 (revisionId tagT) = Some revision50
   \<and> deleteTag deleteModelCascading \<lparr>TagDeleteInput.tag_id = ''000000000000000000000015'', preview = True, TagDeleteInput.comments = None\<rparr> editor store0
       = (Inr [ModelDeleteAcknowledgement ''Tag'' ''000000000000000000000015'', ModelDeleteAcknowledgement ''RuleGroup'' ''00000000000000000000000b'',
               ModelDeleteAcknowledgement ''RuleGroup'' ''00000000000000000000000c'',
               ModelDeleteAcknowledgement ''RuleGroup'' ''00000000000000000000000d''], store0)
   \<and> fst (deleteTag deleteModelCascading \<lparr>TagDeleteInput.tag_id = ''000000000000000000000015'', preview = False, TagDeleteInput.comments = None\<rparr>
             editor store0)
       = Inr [ModelDeleteAcknowledgement ''Tag'' ''000000000000000000000015'', ModelDeleteAcknowledgement ''RuleGroup'' ''00000000000000000000000b'',
              ModelDeleteAcknowledgement ''RuleGroup'' ''00000000000000000000000c'',
              ModelDeleteAcknowledgement ''RuleGroup'' ''00000000000000000000000d'']"
proof -
  let ?data = "\<lparr>TagDeleteInput.tag_id = ''000000000000000000000015'', preview = True, TagDeleteInput.comments = None\<rparr>"
  have named: "new_ObjectId (TagDeleteInput.tag_id ?data) = Inr (id' tagT)"
    by (simp add: read tagT_def)
  have found: "tags store0 (id' tagT) = Some tagT"
    by (simp add: store0_def tagT_def)
  have may: "access editor (orgId tagT) DeleteAccess"
    by (simp add: editor_def tagT_def)
  have dry: "preview ?data"
    by simp
  have rev: "revisions store0 (revisionId tagT) = Some revision50"
    by (simp add: store0_def tagT_def)
  have acks: "fst (deleteTag deleteModelCascading ?data editor store0)
       = Inr [ModelDeleteAcknowledgement ''Tag'' ''000000000000000000000015'', ModelDeleteAcknowledgement ''RuleGroup'' ''00000000000000000000000b'',
              ModelDeleteAcknowledgement ''RuleGroup'' ''00000000000000000000000c'',
              ModelDeleteAcknowledgement ''RuleGroup'' ''00000000000000000000000d'']"
    by (simp add: deleteTag_preview [OF named found may dry] deleteModelCascading_def Let_def)
       (simp add: store0_def tagT_def shown)
  have "tags store0 (ObjectId 21) = Some tagT"
    by (simp add: store0_def)
  then show ?thesis
    using deleteTag_preview_no_write [OF named found may dry] may rev acks
    by (simp add: prod_eq_iff)
qed

text \<open>
  Without the Revision, claim C5 as stated fails: for the Tag whose \<open>revisionId\<close> names no Revision
  the preview returns acknowledgements, and the delete that is not a preview returns none
  but the Revision's not-found error.
\<close>

theorem deleteTag_preview_same_acknowledgements_counterexample:
  "tags store0 (ObjectId 24) = Some tagOrphan \<and> access editor (orgId tagOrphan) DeleteAccess
   \<and> fst (deleteTag deleteModelCascading
             \<lparr>TagDeleteInput.tag_id = ''000000000000000000000018'', preview = True,
              TagDeleteInput.comments = None\<rparr> editor store0)
       = Inr [ModelDeleteAcknowledgement ''Tag'' ''000000000000000000000018'',
              ModelDeleteAcknowledgement ''RuleGroup'' ''00000000000000000000000d'']
   \<and> fst (deleteTag deleteModelCascading
             \<lparr>TagDeleteInput.tag_id = ''000000000000000000000018'', preview = False,
              TagDeleteInput.comments = None\<rparr> editor store0)
       = Inl (GQLError (UserMessage revisionFailed) True)"
proof -
  have named: "new_ObjectId (TagDeleteInput.tag_id
                 \<lparr>TagDeleteInput.tag_id = ''000000000000000000000018'', preview = p,
                  TagDeleteInput.comments = None\<rparr>) = Inr (ObjectId 24)" for p
    by (simp add: read)
  have found: "tags store0 (ObjectId 24) = Some tagOrphan"
    by (simp add: store0_def)
  have may: "access editor (orgId tagOrphan) DeleteAccess"
    by (simp add: editor_def tagOrphan_def)
  have none: "revisions store0 (revisionId tagOrphan) = None"
    by (simp add: store0_def tagOrphan_def)
  have dry: "fst (deleteTag deleteModelCascading
             \<lparr>TagDeleteInput.tag_id = ''000000000000000000000018'', preview = True,
              TagDeleteInput.comments = None\<rparr> editor store0)
       = Inr [ModelDeleteAcknowledgement ''Tag'' ''000000000000000000000018'',
              ModelDeleteAcknowledgement ''RuleGroup'' ''00000000000000000000000d'']"
    by (simp add: deleteTag_preview [OF named found may] deleteModelCascading_def Let_def)
       (simp add: store0_def tagOrphan_def shown)
  have real: "fst (deleteTag deleteModelCascading
             \<lparr>TagDeleteInput.tag_id = ''000000000000000000000018'', preview = False,
              TagDeleteInput.comments = None\<rparr> editor store0)
       = Inl (GQLError (UserMessage revisionFailed) True)"
    by (simp add: deleteTag_no_revision [OF named found may _ none])
  from found may dry real show ?thesis
    by (intro conjI)
qed

text \<open>
  Claim C10. When the Tag's \<open>revisionId\<close> refers to no existing Revision, a delete with
  \<open>preview = true\<close> is the cascade's dry run on the untouched store (the Revision is not
  looked up) and succeeds, whereas the same delete with \<open>preview = false\<close> fails with the
  Revision's not-found error, the store unchanged and the cascade not invoked.
\<close>

theorem deleteTag_preview_skips_revision:
  assumes "new_ObjectId (TagDeleteInput.tag_id data) = Inr tagId"
    and "tags s tagId = Some tag"
    and "access ctx (orgId tag) DeleteAccess"
    and "revisions s (revisionId tag) = None"
  shows "(preview data \<longrightarrow>
            deleteTag cascade data ctx s = cascade (user ctx) tag True s
            \<and> (\<exists>acks. deleteTag deleteModelCascading data ctx s = (Inr acks, s)))
       \<and> (\<not> preview data \<longrightarrow>
            deleteTag cascade data ctx s = (Inl (GQLError (UserMessage revisionFailed) True), s))"
  using deleteModelCascading_preview [of "user ctx" tag s]
  by (auto simp: deleteTag_preview [OF assms(1-3)] deleteTag_no_revision [OF assms(1-3) _ assms(4)])

theorem deleteTag_preview_skips_revision_witness:
  "tags store0 (ObjectId 24) = Some tagOrphan \<and> access editor (orgId tagOrphan) DeleteAccess
   \<and> revisions store0 (revisionId tagOrphan) = None
   \<and> (\<exists>acks. deleteTag deleteModelCascading \<lparr>TagDeleteInput.tag_id = ''000000000000000000000018'', preview = True, TagDeleteInput.comments = None\<rparr>
                editor store0 = (Inr acks, store0))
   \<and> deleteTag deleteModelCascading \<lparr>TagDeleteInput.tag_id = ''000000000000000000000018'', preview = False, TagDeleteInput.comments = None\<rparr>
        editor store0 = (Inl (GQLError (UserMessage revisionFailed) True), store0)"
proof -
  have named: "new_ObjectId (TagDeleteInput.tag_id \<lparr>TagDeleteInput.tag_id = ''000000000000000000000018'', preview = p, TagDeleteInput.comments = None\<rparr>) = Inr (id' tagOrphan)" for p
    by (simp add: read tagOrphan_def)
  have found: "tags store0 (id' tagOrphan) = Some tagOrphan"
    by (simp add: store0_def tagOrphan_def)
  have may: "access editor (orgId tagOrphan) DeleteAccess"
    by (simp add: editor_def tagOrphan_def)
  have none: "revisions store0 (revisionId tagOrphan) = None"
    by (simp add: store0_def tagOrphan_def)
  have dry: "preview \<lparr>TagDeleteInput.tag_id = ''000000000000000000000018'', preview = True, TagDeleteInput.comments = None\<rparr>"
    by simp
  have commit: "\<not> preview \<lparr>TagDeleteInput.tag_id = ''000000000000000000000018'', preview = False, TagDeleteInput.comments = None\<rparr>"
    by simp
  have "tags store0 (ObjectId 24) = Some tagOrphan"
    by (simp add: store0_def)
  moreover have "\<exists>acks. deleteTag deleteModelCascading
                  \<lparr>TagDeleteInput.tag_id = ''000000000000000000000018'', preview = True, TagDeleteInput.comments = None\<rparr>
                  editor store0 = (Inr acks, store0)"
    using deleteTag_preview_skips_revision [OF named found may none, of True deleteModelCascading]
      dry by blast
  moreover have "deleteTag deleteModelCascading
                  \<lparr>TagDeleteInput.tag_id = ''000000000000000000000018'', preview = False, TagDeleteInput.comments = None\<rparr>
                  editor store0 = (Inl (GQLError (UserMessage revisionFailed) True), store0)"
    using deleteTag_preview_skips_revision [OF named found may none, of False deleteModelCascading]
      commit by blast
  ultimately show ?thesis
    using may none by blast
qed

subsection \<open>Creating and updating a tag\<close>

lemma createTag_unread:
  assumes "new_ObjectId (revision_id data) = Inl e"
  shows "createTag gen data ctx s = (Inl e, s)"
  using assms by (simp add: createTag_def await_def sync_def throw_def)

lemma createTag_no_revision:
  assumes "new_ObjectId (revision_id data) = Inr targetId"
    and "revisions s targetId = None"
  shows "createTag gen data ctx s = (Inl (GQLError (UserMessage revisionFailed) True), s)"
  using assms by (simp add: createTag_def await_def sync_def resolve_def findByIdThrows_def)

lemma createTag_denied:
  assumes "new_ObjectId (revision_id data) = Inr targetId"
    and "revisions s targetId = Some revision"
    and "\<not> access ctx (orgId revision) CreateAccess"
  shows "createTag gen data ctx s = (Inl (AccessDenied CreateAccess), s)"
  using assms
  by (simp add: createTag_def await_def sync_def resolve_def findByIdThrows_def
      asUserWithAccess_def throw_def)

lemma createTag_granted:
  assumes "new_ObjectId (revision_id data) = Inr targetId"
    and "revisions s targetId = Some revision"
    and "access ctx (orgId revision) CreateAccess"
  shows "createTag gen data ctx s =
     (if TagCreateInput.type data = PLACEMENT \<and> TagCreateInput.auto_load data
      then (Inl autoLoadPlacementError, s)
      else await (createTagSkeleton gen (user ctx) revision
                    (TagCreateInput.name data) (TagCreateInput.type data)
                    (TagCreateInput.width data) (TagCreateInput.height data)
                    (TagCreateInput.auto_load data) (TagCreateInput.comments data))
             (\<lambda>tag. resolve (toGQLType tag)) s)"
  using assms
  by (simp add: createTag_def await_def sync_def resolve_def findByIdThrows_def
      asUserWithAccess_def throw_def)

lemma unat_drawn: "n < 2 ^ 96 \<Longrightarrow> unat (of_nat n :: 96 word) = n"
  by (simp add: unat_of_nat)

lemma createTagSkeleton_result:
  "createTagSkeleton gen actor revision n t w h a c s =
     (if nextId s < 2 ^ 96 then
        (let newTag = \<lparr>id' = ObjectId (of_nat (nextId s)), orgId = orgId revision, name = n,
                        tagCode = gen (nextId s), revisionId = id' revision,
                        type = t, ruleGroupIds = [], width = w, height = h,
                        autoLoad = a, isActive = True\<rparr>
         in (Inr newTag,
             s\<lparr>nextId := Suc (nextId s),
               tags := (tags s)(ObjectId (of_nat (nextId s)) \<mapsto> newTag),
               revisions := (revisions s)
                 (id' revision \<mapsto>
                    revision\<lparr>tagIds := tagIds revision @ [ObjectId (of_nat (nextId s))]\<rparr>),
               audit := audit s @
                 [(ObjectId (of_nat (nextId s)), actor, USER,
                   \<lparr>gqlMethod = CREATE, userComments = c, opConnectedModels = []\<rparr>),
                  (id' revision, actor, USER,
                   \<lparr>gqlMethod = ADD_LINKED_ENTITY, userComments = None,
                    opConnectedModels = [ObjectId (of_nat (nextId s))]\<rparr>)]\<rparr>))
      else (Inl OutOfIdentifiers, s))"
  by (simp add: createTagSkeleton_def await_def newObjectId_def save_Tag_def save_Revision_def
      resolve_def Let_def unat_drawn)

lemma createTag_result:
  assumes "new_ObjectId (revision_id data) = Inr targetId"
    and "revisions s targetId = Some revision"
    and "access ctx (orgId revision) CreateAccess"
    and "\<not> (TagCreateInput.type data = PLACEMENT \<and> TagCreateInput.auto_load data)"
    and "nextId s < 2 ^ 96"
  shows "\<exists>created s'. createTag gen data ctx s = (Inr created, s')"
  using assms(4,5)
  by (simp add: createTag_granted [OF assms(1,2,3)] createTagSkeleton_result await_def
      resolve_def Let_def)

lemma updateTag_denied:
  assumes "new_ObjectId (TagUpdateInput.tag_id data) = Inr tagId"
    and "tags s tagId = Some tag"
    and "\<not> access ctx (orgId tag) EditAccess"
  shows "updateTag data ctx s = (Inl (AccessDenied EditAccess), s)"
  using assms
  by (simp add: updateTag_def await_def sync_def resolve_def findByIdThrows_def
      asUserWithAccess_def throw_def)

lemma updateTag_granted:
  assumes "new_ObjectId (TagUpdateInput.tag_id data) = Inr tagId"
    and "tags s tagId = Some tag"
    and "access ctx (orgId tag) EditAccess"
  shows "updateTag data ctx s =
     (if Tag.type tag = PLACEMENT \<and> TagUpdateInput.auto_load data = Some True
      then (Inl autoLoadPlacementError, s)
      else (Inr True,
            s\<lparr>tags := (tags s)
                 (id' (bulkGQLSet tag (toObject data)
                         [''name'', ''width'', ''height'', ''auto_load'', ''is_active''])
                    \<mapsto> bulkGQLSet tag (toObject data)
                         [''name'', ''width'', ''height'', ''auto_load'', ''is_active'']),
              audit := audit s @
                [(id' (bulkGQLSet tag (toObject data)
                         [''name'', ''width'', ''height'', ''auto_load'', ''is_active'']),
                  user ctx, USER,
                  \<lparr>gqlMethod = UPDATE_PROPERTIES,
                   userComments = TagUpdateInput.comments data,
                   opConnectedModels = []\<rparr>)]\<rparr>))"
  using assms
  by (simp add: updateTag_def await_def sync_def resolve_def findByIdThrows_def
      asUserWithAccess_def throw_def save_Tag_def Let_def)

lemma toObject_simps:
  "toObject data ''name'' = map_option GQLString (TagUpdateInput.name data)"
  "toObject data ''width'' = map_option GQLInt (TagUpdateInput.width data)"
  "toObject data ''height'' = map_option GQLInt (TagUpdateInput.height data)"
  "toObject data ''auto_load'' = map_option GQLBoolean (TagUpdateInput.auto_load data)"
  "toObject data ''is_active'' = map_option GQLBoolean (is_active data)"
  by (simp_all add: toObject_def)

lemma gqlSet_simps:
  "gqlSet ''name'' (GQLString x) tag = tag\<lparr>Tag.name := x\<rparr>"
  "gqlSet ''width'' (GQLInt n) tag = tag\<lparr>Tag.width := n\<rparr>"
  "gqlSet ''height'' (GQLInt n) tag = tag\<lparr>Tag.height := n\<rparr>"
  "gqlSet ''auto_load'' (GQLBoolean b) tag = tag\<lparr>autoLoad := b\<rparr>"
  "gqlSet ''is_active'' (GQLBoolean b) tag = tag\<lparr>isActive := b\<rparr>"
  by (simp_all add: gqlSet_def)

lemma bulkGQLSet_update:
  "bulkGQLSet tag (toObject data) [''name'', ''width'', ''height'', ''auto_load'', ''is_active'']
     = tag\<lparr>Tag.name := (case TagUpdateInput.name data of None \<Rightarrow> Tag.name tag | Some x \<Rightarrow> x),
           Tag.width := (case TagUpdateInput.width data of None \<Rightarrow> Tag.width tag | Some x \<Rightarrow> x),
           Tag.height := (case TagUpdateInput.height data of None \<Rightarrow> Tag.height tag | Some x \<Rightarrow> x),
           autoLoad := (case TagUpdateInput.auto_load data of None \<Rightarrow> autoLoad tag | Some x \<Rightarrow> x),
           isActive := (case is_active data of None \<Rightarrow> isActive tag | Some x \<Rightarrow> x)\<rparr>"
  by (simp add: bulkGQLSet_def toObject_simps gqlSet_simps split: option.splits)

lemma gqlSet_frame:
  "id' (gqlSet key v tag) = id' tag"
  "orgId (gqlSet key v tag) = orgId tag"
  "revisionId (gqlSet key v tag) = revisionId tag"
  "ruleGroupIds (gqlSet key v tag) = ruleGroupIds tag"
  "''type'' \<noteq> key \<Longrightarrow> Tag.type (gqlSet key v tag) = Tag.type tag"
  "''tag_code'' \<noteq> key \<Longrightarrow> tagCode (gqlSet key v tag) = tagCode tag"
  by (auto simp: gqlSet_def split: GQLValue.splits)

lemma bulkGQLSet_frame:
  "id' (bulkGQLSet tag obj keys) = id' tag"
  "orgId (bulkGQLSet tag obj keys) = orgId tag"
  "revisionId (bulkGQLSet tag obj keys) = revisionId tag"
  "ruleGroupIds (bulkGQLSet tag obj keys) = ruleGroupIds tag"
  "''type'' \<notin> set keys \<Longrightarrow> Tag.type (bulkGQLSet tag obj keys) = Tag.type tag"
  "''tag_code'' \<notin> set keys \<Longrightarrow> tagCode (bulkGQLSet tag obj keys) = tagCode tag"
  unfolding bulkGQLSet_def
  by (induction keys arbitrary: tag; simp add: gqlSet_frame split: option.splits)+

lemma createTag_rejects:
  assumes "TagCreateInput.type data = PLACEMENT \<and> TagCreateInput.auto_load data"
  shows "isl (fst (createTag gen data ctx s)) \<and> snd (createTag gen data ctx s) = s"
  unfolding createTag_def
  by (rule gated_cases [where P = "\<lambda>r. isl (fst r) \<and> snd r = s"])
     (simp_all add: assms throw_def)

lemma createTag_created:
  "\<forall>created. fst (createTag gen data ctx s) = Inr created \<longrightarrow>
     \<not> (Tag.type created = PLACEMENT \<and> autoLoad created)"
  unfolding createTag_def
  by (rule gated_cases [where P = "\<lambda>r. \<forall>created. fst r = Inr created \<longrightarrow>
          \<not> (Tag.type created = PLACEMENT \<and> autoLoad created)"])
     (auto simp: throw_def createTagSkeleton_result await_def resolve_def toGQLType_def Let_def
        split: if_splits)

text \<open>
  Claim C2, as the code has it. A \<open>createTag\<close> request with \<open>type = PLACEMENT\<close> and
  \<open>auto_load = true\<close> is always rejected with the store unchanged, and so is an \<open>updateTag\<close>
  request with \<open>auto_load = true\<close> on a Tag whose stored type is \<open>PLACEMENT\<close>; the error is
  the validation error whenever the operation's preconditions hold (the entity exists, the
  caller has access). For a stored Tag that is not already a placement with \<open>autoLoad\<close>,
  this rejects every \<open>updateTag\<close> request whose resulting state would be one. Every accepted
  \<open>createTag\<close> returns a Tag that is not an auto-loading placement, and every accepted
  \<open>updateTag\<close> on a Tag that is not one stores a Tag that is not one.
\<close>

theorem autoLoad_placement_rejected:
  "(TagCreateInput.type cdata = PLACEMENT \<and> TagCreateInput.auto_load cdata \<longrightarrow>
      isl (fst (createTag gen cdata ctx s)) \<and> snd (createTag gen cdata ctx s) = s
      \<and> (\<forall>targetId revision. new_ObjectId (revision_id cdata) = Inr targetId
            \<and> revisions s targetId = Some revision
            \<and> access ctx (orgId revision) CreateAccess \<longrightarrow>
            fst (createTag gen cdata ctx s) = Inl autoLoadPlacementError))
   \<and> (\<forall>tagId tag. new_ObjectId (TagUpdateInput.tag_id udata) = Inr tagId
         \<and> tags s tagId = Some tag
         \<and> Tag.type tag = PLACEMENT \<and> TagUpdateInput.auto_load udata = Some True \<longrightarrow>
         isl (fst (updateTag udata ctx s)) \<and> snd (updateTag udata ctx s) = s
         \<and> (access ctx (orgId tag) EditAccess \<longrightarrow>
              fst (updateTag udata ctx s) = Inl autoLoadPlacementError))
   \<and> (\<forall>tagId tag. new_ObjectId (TagUpdateInput.tag_id udata) = Inr tagId
         \<and> tags s tagId = Some tag
         \<and> \<not> (Tag.type tag = PLACEMENT \<and> autoLoad tag)
         \<and> Tag.type (bulkGQLSet tag (toObject udata)
                        [''name'', ''width'', ''height'', ''auto_load'', ''is_active''])
             = PLACEMENT
         \<and> autoLoad (bulkGQLSet tag (toObject udata)
                        [''name'', ''width'', ''height'', ''auto_load'', ''is_active'']) \<longrightarrow>
         isl (fst (updateTag udata ctx s)) \<and> snd (updateTag udata ctx s) = s
         \<and> (access ctx (orgId tag) EditAccess \<longrightarrow>
              fst (updateTag udata ctx s) = Inl autoLoadPlacementError))
   \<and> (\<forall>created. fst (createTag gen cdata ctx s) = Inr created \<longrightarrow>
         \<not> (Tag.type created = PLACEMENT \<and> autoLoad created))
   \<and> (\<forall>tagId tag. new_ObjectId (TagUpdateInput.tag_id udata) = Inr tagId
         \<and> tags s tagId = Some tag
         \<and> \<not> (Tag.type tag = PLACEMENT \<and> autoLoad tag)
         \<and> fst (updateTag udata ctx s) = Inr True \<longrightarrow>
         (\<exists>tag'. tags (snd (updateTag udata ctx s)) (id' tag) = Some tag'
            \<and> \<not> (Tag.type tag' = PLACEMENT \<and> autoLoad tag')))"
proof -
  let ?keys = "[''name'', ''width'', ''height'', ''auto_load'', ''is_active'']"
  have create: "fst (createTag gen cdata ctx s) = Inl autoLoadPlacementError"
    if "TagCreateInput.type cdata = PLACEMENT \<and> TagCreateInput.auto_load cdata"
      and "new_ObjectId (revision_id cdata) = Inr targetId \<and> revisions s targetId = Some revision
           \<and> access ctx (orgId revision) CreateAccess"
    for targetId revision
    using that by (simp add: createTag_granted [of cdata targetId s revision])
  have update: "isl (fst (updateTag udata ctx s)) \<and> snd (updateTag udata ctx s) = s
         \<and> (access ctx (orgId tag) EditAccess \<longrightarrow>
              fst (updateTag udata ctx s) = Inl autoLoadPlacementError)"
    if named: "new_ObjectId (TagUpdateInput.tag_id udata) = Inr tagId"
      and found: "tags s tagId = Some tag"
      and bad: "Tag.type tag = PLACEMENT \<and> TagUpdateInput.auto_load udata = Some True"
    for tagId tag
  proof (cases "access ctx (orgId tag) EditAccess")
    case True
    with bad show ?thesis by (simp add: updateTag_granted [OF named found])
  next
    case False
    then show ?thesis by (simp add: updateTag_denied [OF named found])
  qed
  have incoming: "Tag.type tag = PLACEMENT \<and> TagUpdateInput.auto_load udata = Some True"
    if "\<not> (Tag.type tag = PLACEMENT \<and> autoLoad tag)"
      and "Tag.type (bulkGQLSet tag (toObject udata) ?keys) = PLACEMENT"
      and "autoLoad (bulkGQLSet tag (toObject udata) ?keys)"
    for tag
    using that by (auto simp: bulkGQLSet_update split: option.splits)
  have kept: "\<exists>tag'. tags (snd (updateTag udata ctx s)) (id' tag) = Some tag'
            \<and> \<not> (Tag.type tag' = PLACEMENT \<and> autoLoad tag')"
    if named: "new_ObjectId (TagUpdateInput.tag_id udata) = Inr tagId"
      and found: "tags s tagId = Some tag"
      and good: "\<not> (Tag.type tag = PLACEMENT \<and> autoLoad tag)"
      and ok: "fst (updateTag udata ctx s) = Inr True"
    for tagId tag
  proof -
    have granted: "access ctx (orgId tag) EditAccess"
      using ok updateTag_denied [OF named found]
      by (cases "access ctx (orgId tag) EditAccess") auto
    have accepted: "\<not> (Tag.type tag = PLACEMENT \<and> TagUpdateInput.auto_load udata = Some True)"
      using ok updateTag_granted [OF named found granted] by auto
    let ?tag' = "bulkGQLSet tag (toObject udata) ?keys"
    have "tags (snd (updateTag udata ctx s)) = (tags s)(id' ?tag' \<mapsto> ?tag')"
      using accepted by (auto simp: updateTag_granted [OF named found granted])
    then have "tags (snd (updateTag udata ctx s)) (id' tag) = Some ?tag'"
      by (simp add: bulkGQLSet_frame)
    moreover have "\<not> (Tag.type ?tag' = PLACEMENT \<and> autoLoad ?tag')"
      using good accepted by (auto simp: bulkGQLSet_update split: option.splits)
    ultimately show ?thesis
      by blast
  qed
  from createTag_rejects [of cdata gen ctx s] create update incoming kept
    createTag_created [of gen cdata ctx s]
  show ?thesis
    by (intro conjI allI impI; (elim conjE)?; blast)
qed

theorem autoLoad_placement_rejected_witness:
  "TagCreateInput.type placementAutoLoad = PLACEMENT \<and> TagCreateInput.auto_load placementAutoLoad
   \<and> new_ObjectId (revision_id placementAutoLoad) = Inr (ObjectId 50)
   \<and> revisions store0 (ObjectId 50) = Some revision50
   \<and> access editor (orgId revision50) CreateAccess
   \<and> createTag tagCodeOf placementAutoLoad editor store0 = (Inl autoLoadPlacementError, store0)
   \<and> new_ObjectId (TagUpdateInput.tag_id setAutoLoad) = Inr (ObjectId 23)
   \<and> tags store0 (ObjectId 23) = Some tagP
   \<and> Tag.type tagP = PLACEMENT \<and> TagUpdateInput.auto_load setAutoLoad = Some True
   \<and> \<not> (Tag.type tagP = PLACEMENT \<and> autoLoad tagP)
   \<and> Tag.type (bulkGQLSet tagP (toObject setAutoLoad)
                  [''name'', ''width'', ''height'', ''auto_load'', ''is_active'']) = PLACEMENT
   \<and> autoLoad (bulkGQLSet tagP (toObject setAutoLoad)
                  [''name'', ''width'', ''height'', ''auto_load'', ''is_active''])
   \<and> access editor (orgId tagP) EditAccess
   \<and> updateTag setAutoLoad editor store0 = (Inl autoLoadPlacementError, store0)
   \<and> (\<exists>created s1. createTag tagCodeOf headAutoLoad editor store0 = (Inr created, s1)
          \<and> \<not> (Tag.type created = PLACEMENT \<and> autoLoad created))
   \<and> new_ObjectId (TagUpdateInput.tag_id rename) = Inr (ObjectId 21)
   \<and> tags store0 (ObjectId 21) = Some tagT
   \<and> \<not> (Tag.type tagT = PLACEMENT \<and> autoLoad tagT)
   \<and> fst (updateTag rename editor store0) = Inr True
   \<and> (\<exists>tag'. tags (snd (updateTag rename editor store0)) (id' tagT) = Some tag'
          \<and> \<not> (Tag.type tag' = PLACEMENT \<and> autoLoad tag'))"
proof -
  have c: "TagCreateInput.type placementAutoLoad = PLACEMENT \<and> TagCreateInput.auto_load placementAutoLoad"
    by (simp add: placementAutoLoad_def)
  have r: "new_ObjectId (revision_id placementAutoLoad) = Inr (ObjectId 50)
           \<and> revisions store0 (ObjectId 50) = Some revision50
           \<and> access editor (orgId revision50) CreateAccess"
    by (simp add: placementAutoLoad_def store0_def editor_def revision50_def read)
  have u: "new_ObjectId (TagUpdateInput.tag_id setAutoLoad) = Inr (ObjectId 23)
           \<and> tags store0 (ObjectId 23) = Some tagP
           \<and> Tag.type tagP = PLACEMENT \<and> TagUpdateInput.auto_load setAutoLoad = Some True"
    by (simp add: setAutoLoad_def store0_def tagP_def read)
  have n: "\<not> (Tag.type tagP = PLACEMENT \<and> autoLoad tagP)
           \<and> Tag.type (bulkGQLSet tagP (toObject setAutoLoad)
                  [''name'', ''width'', ''height'', ''auto_load'', ''is_active'']) = PLACEMENT
           \<and> autoLoad (bulkGQLSet tagP (toObject setAutoLoad)
                  [''name'', ''width'', ''height'', ''auto_load'', ''is_active''])"
    by (simp add: bulkGQLSet_update setAutoLoad_def tagP_def)
  have e: "access editor (orgId tagP) EditAccess"
    by (simp add: editor_def tagP_def)
  note inst = autoLoad_placement_rejected [of placementAutoLoad tagCodeOf editor store0 setAutoLoad]
  from inst c r have "fst (createTag tagCodeOf placementAutoLoad editor store0)
                        = Inl autoLoadPlacementError
                      \<and> snd (createTag tagCodeOf placementAutoLoad editor store0) = store0"
    by blast
  then have created: "createTag tagCodeOf placementAutoLoad editor store0
                        = (Inl autoLoadPlacementError, store0)"
    by (simp add: prod_eq_iff)
  from inst u e have "fst (updateTag setAutoLoad editor store0) = Inl autoLoadPlacementError
                      \<and> snd (updateTag setAutoLoad editor store0) = store0"
    by blast
  moreover from inst u n e
  have "fst (updateTag setAutoLoad editor store0) = Inl autoLoadPlacementError
        \<and> snd (updateTag setAutoLoad editor store0) = store0"
    by blast
  ultimately have updated: "updateTag setAutoLoad editor store0
                        = (Inl autoLoadPlacementError, store0)"
    by (simp add: prod_eq_iff)
  note inst' = autoLoad_placement_rejected [of headAutoLoad tagCodeOf editor store0 rename]
  have r': "new_ObjectId (revision_id headAutoLoad) = Inr (ObjectId 50)"
    by (simp add: headAutoLoad_def read)
  have found': "revisions store0 (ObjectId 50) = Some revision50"
    by (simp add: store0_def)
  have may': "access editor (orgId revision50) CreateAccess"
    by (simp add: editor_def revision50_def)
  have valid: "\<not> (TagCreateInput.type headAutoLoad = PLACEMENT
                   \<and> TagCreateInput.auto_load headAutoLoad)"
    by (simp add: headAutoLoad_def)
  have room: "nextId store0 < 2 ^ 96"
    by (simp add: store0_def)
  obtain made s1 where made: "createTag tagCodeOf headAutoLoad editor store0 = (Inr made, s1)"
    using createTag_result [OF r' found' may' valid room] by blast
  with inst' have "\<not> (Tag.type made = PLACEMENT \<and> autoLoad made)"
    by simp
  with made have head: "\<exists>created s1. createTag tagCodeOf headAutoLoad editor store0 = (Inr created, s1)
          \<and> \<not> (Tag.type created = PLACEMENT \<and> autoLoad created)"
    by blast
  have named: "new_ObjectId (TagUpdateInput.tag_id rename) = Inr (ObjectId 21)"
    by (simp add: rename_def read)
  have stored: "tags store0 (ObjectId 21) = Some tagT"
    by (simp add: store0_def)
  have good: "\<not> (Tag.type tagT = PLACEMENT \<and> autoLoad tagT)"
    by (simp add: tagT_def)
  have edit: "access editor (orgId tagT) EditAccess"
    by (simp add: editor_def tagT_def)
  have absent: "\<not> (Tag.type tagT = PLACEMENT \<and> TagUpdateInput.auto_load rename = Some True)"
    by (simp add: rename_def)
  have accepted: "fst (updateTag rename editor store0) = Inr True"
    using absent by (auto simp: updateTag_granted [OF named stored edit])
  from inst' named stored good accepted
  have kept: "\<exists>tag'. tags (snd (updateTag rename editor store0)) (id' tagT) = Some tag'
          \<and> \<not> (Tag.type tag' = PLACEMENT \<and> autoLoad tag')"
    by blast
  from c r created u n e updated head named stored good accepted kept show ?thesis
    by (intro conjI) blast+
qed

text \<open>
  Claim C2 as stated fails where it says that \<open>updateTag\<close> rejects every request whose
  resulting state would have \<open>type = PLACEMENT\<close> and \<open>autoLoad = true\<close>: the check reads
  the incoming \<open>auto_load\<close> only. A request that renames a stored placement whose
  \<open>autoLoad\<close> is already set supplies no \<open>auto_load\<close>; it is accepted, and the Tag that is
  saved is a placement with \<open>autoLoad\<close> set.
\<close>

theorem autoLoad_placement_rejected_counterexample:
  "new_ObjectId (TagUpdateInput.tag_id renamePA) = Inr (ObjectId 25)
   \<and> tags store0 (ObjectId 25) = Some tagPA
   \<and> access editor (orgId tagPA) EditAccess
   \<and> fst (updateTag renamePA editor store0) = Inr True
   \<and> tags (snd (updateTag renamePA editor store0)) (ObjectId 25)
       = Some (tagPA\<lparr>Tag.name := ''still loading''\<rparr>)
   \<and> Tag.type (tagPA\<lparr>Tag.name := ''still loading''\<rparr>) = PLACEMENT
   \<and> autoLoad (tagPA\<lparr>Tag.name := ''still loading''\<rparr>)
   \<and> snd (updateTag renamePA editor store0) \<noteq> store0"
proof -
  have named: "new_ObjectId (TagUpdateInput.tag_id renamePA) = Inr (ObjectId 25)"
    by (simp add: renamePA_def read)
  have found: "tags store0 (ObjectId 25) = Some tagPA"
    by (simp add: store0_def)
  have may: "access editor (orgId tagPA) EditAccess"
    by (simp add: editor_def tagPA_def)
  have stored: "bulkGQLSet tagPA (toObject renamePA)
                  [''name'', ''width'', ''height'', ''auto_load'', ''is_active'']
                = tagPA\<lparr>Tag.name := ''still loading''\<rparr>"
    by (simp add: bulkGQLSet_update renamePA_def)
  have result: "fst (updateTag renamePA editor store0) = Inr True"
    "tags (snd (updateTag renamePA editor store0)) (ObjectId 25)
       = Some (tagPA\<lparr>Tag.name := ''still loading''\<rparr>)"
    unfolding updateTag_granted [OF named found may] stored
    by (simp_all add: renamePA_def tagPA_def)
  have kind: "Tag.type (tagPA\<lparr>Tag.name := ''still loading''\<rparr>) = PLACEMENT"
    "autoLoad (tagPA\<lparr>Tag.name := ''still loading''\<rparr>)"
    by (simp_all add: tagPA_def)
  have "tags (snd (updateTag renamePA editor store0)) (ObjectId 25) \<noteq> tags store0 (ObjectId 25)"
    unfolding result found by (simp add: tagPA_def)
  then have changed: "snd (updateTag renamePA editor store0) \<noteq> store0"
    by auto
  from named found may result kind changed show ?thesis
    by (intro conjI)
qed

text \<open>
  Claim C4 as stated fails, the validation does not come first: a caller without create access who
  submits \<open>type = PLACEMENT\<close> with \<open>auto_load = true\<close> is denied access and does not see
  the validation error.
\<close>

theorem createTag_validation_first_counterexample:
  "new_ObjectId (revision_id placementAutoLoad) = Inr (ObjectId 50)
   \<and> revisions store0 (ObjectId 50) = Some revision50
   \<and> \<not> access stranger (orgId revision50) CreateAccess
   \<and> TagCreateInput.type placementAutoLoad = PLACEMENT \<and> TagCreateInput.auto_load placementAutoLoad
   \<and> createTag tagCodeOf placementAutoLoad stranger store0 = (Inl (AccessDenied CreateAccess), store0)
   \<and> AccessDenied CreateAccess \<noteq> autoLoadPlacementError"
proof -
  have named: "new_ObjectId (revision_id placementAutoLoad) = Inr (ObjectId 50)"
    by (simp add: placementAutoLoad_def read)
  have found: "revisions store0 (ObjectId 50) = Some revision50"
    by (simp add: store0_def)
  have denied: "\<not> access stranger (orgId revision50) CreateAccess"
    by (simp add: stranger_def)
  have kind: "TagCreateInput.type placementAutoLoad = PLACEMENT"
    "TagCreateInput.auto_load placementAutoLoad"
    by (simp_all add: placementAutoLoad_def)
  have other: "AccessDenied CreateAccess \<noteq> autoLoadPlacementError"
    by (simp add: autoLoadPlacementError_def)
  from named found denied kind createTag_denied [OF named found denied, of tagCodeOf] other
  show ?thesis
    by (intro conjI)
qed

text \<open>
  Claim C4, as the code has it. In \<open>createTag\<close> the check of \<open>PLACEMENT\<close> with \<open>auto_load\<close>
  is part of the body that the authorization gate runs: a caller who lacks create access
  on the Revision's organization receives the authorization denial, never the validation
  error, whatever the input, and nothing is persisted.
\<close>

theorem createTag_authorization_first:
  assumes "new_ObjectId (revision_id data) = Inr targetId"
    and "revisions s targetId = Some revision"
    and "\<not> access ctx (orgId revision) CreateAccess"
  shows "createTag gen data ctx s = (Inl (AccessDenied CreateAccess), s)
       \<and> fst (createTag gen data ctx s) \<noteq> Inl autoLoadPlacementError"
  using assms by (simp add: createTag_denied autoLoadPlacementError_def)

theorem createTag_authorization_first_witness:
  "new_ObjectId (revision_id placementAutoLoad) = Inr (ObjectId 50)
   \<and> revisions store0 (ObjectId 50) = Some revision50
   \<and> \<not> access stranger (orgId revision50) CreateAccess
   \<and> createTag tagCodeOf placementAutoLoad stranger store0 = (Inl (AccessDenied CreateAccess), store0)"
proof -
  have n: "new_ObjectId (revision_id placementAutoLoad) = Inr (ObjectId 50)"
    by (simp add: placementAutoLoad_def read)
  have r: "revisions store0 (ObjectId 50) = Some revision50"
    by (simp add: store0_def)
  have d: "\<not> access stranger (orgId revision50) CreateAccess"
    by (simp add: stranger_def)
  from n r d createTag_authorization_first [OF n r d, of tagCodeOf, THEN conjunct1]
  show ?thesis
    by (intro conjI)
qed

text \<open>Without the list of keys \<open>bulkGQLSet\<close> would assign the type, as the call site fears.\<close>

lemma bulkGQLSet_without_allow_list:
  "Tag.type (bulkGQLSet tagT [''type'' \<mapsto> GQLTagType PLACEMENT] [''type'']) = PLACEMENT
   \<and> Tag.type tagT = HEAD"
  by (simp add: bulkGQLSet_def gqlSet_def tagT_def)



subsection \<open>Duplicates, links and tag codes\<close>

lemma branchRuleGroups_frame:
  "tags (snd (branchRuleGroups actor rs s)) = tags s
   \<and> revisions (snd (branchRuleGroups actor rs s)) = revisions s
   \<and> nextId s \<le> nextId (snd (branchRuleGroups actor rs s))
   \<and> nextId (snd (branchRuleGroups actor rs s)) \<le> nextId s + length rs
   \<and> (nextId s + length rs < 2 ^ 96 \<longrightarrow> \<not> isl (fst (branchRuleGroups actor rs s)))
   \<and> (\<forall>copies. fst (branchRuleGroups actor rs s) = Inr copies \<longrightarrow> length copies \<le> length rs)"
proof (induction rs arbitrary: s)
  case Nil
  show ?case by (simp add: resolve_def)
next
  case (Cons r rs)
  show ?case
  proof (cases "ruleGroups s r")
    case None
    with Cons [of s] show ?thesis by auto
  next
    case (Some g)
    show ?thesis
    proof (cases "nextId s < 2 ^ 96")
      case False
      with Some show ?thesis
        by (simp add: await_def newObjectId_def)
    next
      case True
      let ?i = "ObjectId (of_nat (nextId s))"
      let ?s1 = "s\<lparr>nextId := Suc (nextId s),
                    ruleGroups := (ruleGroups s)(?i \<mapsto> g\<lparr>id' := ?i\<rparr>),
                    audit := audit s @ [(?i, actor, USER,
                       \<lparr>gqlMethod = CREATE, userComments = None, opConnectedModels = []\<rparr>)]\<rparr>"
      obtain r1 s' where rest: "branchRuleGroups actor rs ?s1 = (r1, s')"
        by (cases "branchRuleGroups actor rs ?s1")
      with Cons [of ?s1] have frame: "tags s' = tags s" "revisions s' = revisions s"
        "Suc (nextId s) \<le> nextId s'" "nextId s' \<le> Suc (nextId s) + length rs"
        "Suc (nextId s) + length rs < 2 ^ 96 \<longrightarrow> \<not> isl r1"
        "\<forall>copies. r1 = Inr copies \<longrightarrow> length copies \<le> length rs"
        by simp_all
      have "branchRuleGroups actor (r # rs) s
              = (case r1 of Inl e \<Rightarrow> (Inl e, s') | Inr copies \<Rightarrow> (Inr (?i # copies), s'))"
        using Some True rest
        by (simp add: await_def newObjectId_def save_RuleGroup_def resolve_def split: sum.splits)
      with frame show ?thesis
        by (cases r1) simp_all
    qed
  qed
qed

lemma createNewModelBranchFromModel_result:
  "revisions (snd (createNewModelBranchFromModel actor tag s)) = revisions s
   \<and> nextId s \<le> nextId (snd (createNewModelBranchFromModel actor tag s))
   \<and> nextId (snd (createNewModelBranchFromModel actor tag s))
        \<le> Suc (nextId s + length (ruleGroupIds tag))
   \<and> (case fst (createNewModelBranchFromModel actor tag s) of
         Inl e \<Rightarrow> tags (snd (createNewModelBranchFromModel actor tag s)) = tags s
       | Inr newTag \<Rightarrow>
           nextId s < 2 ^ 96
           \<and> nextId s < nextId (snd (createNewModelBranchFromModel actor tag s))
           \<and> (\<exists>copies. length copies \<le> length (ruleGroupIds tag)
                \<and> newTag = tag\<lparr>id' := ObjectId (of_nat (nextId s)), ruleGroupIds := copies\<rparr>)
           \<and> tags (snd (createNewModelBranchFromModel actor tag s))
               = (tags s)(ObjectId (of_nat (nextId s)) \<mapsto> newTag))
   \<and> (Suc (nextId s + length (ruleGroupIds tag)) < 2 ^ 96 \<longrightarrow>
         \<not> isl (fst (createNewModelBranchFromModel actor tag s)))"
proof (cases "nextId s < 2 ^ 96")
  case False
  then show ?thesis
    by (simp add: createNewModelBranchFromModel_def await_def newObjectId_def)
next
  case True
  let ?s1 = "s\<lparr>nextId := Suc (nextId s)\<rparr>"
  obtain r1 s2 where rest: "branchRuleGroups actor (ruleGroupIds tag) ?s1 = (r1, s2)"
    by (cases "branchRuleGroups actor (ruleGroupIds tag) ?s1")
  with branchRuleGroups_frame [of actor "ruleGroupIds tag" ?s1]
  have frame: "tags s2 = tags s" "revisions s2 = revisions s"
    "Suc (nextId s) \<le> nextId s2" "nextId s2 \<le> Suc (nextId s) + length (ruleGroupIds tag)"
    "Suc (nextId s) + length (ruleGroupIds tag) < 2 ^ 96 \<longrightarrow> \<not> isl r1"
    "\<forall>copies. r1 = Inr copies \<longrightarrow> length copies \<le> length (ruleGroupIds tag)"
    by simp_all
  show ?thesis
  proof (cases r1)
    case (Inl e)
    with True rest frame show ?thesis
      by (simp add: createNewModelBranchFromModel_def await_def newObjectId_def)
  next
    case (Inr copies)
    with True rest frame show ?thesis
      by (auto simp: createNewModelBranchFromModel_def await_def newObjectId_def save_Tag_def)
  qed
qed

lemma duplicateTag_local_result:
  assumes "revisions s (revisionId tag) = Some revision"
  shows "nextId s \<le> nextId (snd (duplicateTag_local actor tag s))
   \<and> nextId (snd (duplicateTag_local actor tag s)) \<le> Suc (nextId s + length (ruleGroupIds tag))
   \<and> (case fst (duplicateTag_local actor tag s) of
         Inl e \<Rightarrow> tags (snd (duplicateTag_local actor tag s)) = tags s
       | Inr newTag \<Rightarrow>
           nextId s < 2 ^ 96
           \<and> nextId s < nextId (snd (duplicateTag_local actor tag s))
           \<and> (\<exists>copies. length copies \<le> length (ruleGroupIds tag)
                \<and> newTag = tag\<lparr>id' := ObjectId (of_nat (nextId s)), ruleGroupIds := copies\<rparr>)
           \<and> tags (snd (duplicateTag_local actor tag s))
               = (tags s)(ObjectId (of_nat (nextId s)) \<mapsto> newTag)
           \<and> revisions (snd (duplicateTag_local actor tag s))
               = (revisions s)(id' revision \<mapsto>
                    revision\<lparr>tagIds := tagIds revision @ [ObjectId (of_nat (nextId s))]\<rparr>))
   \<and> (Suc (nextId s + length (ruleGroupIds tag)) < 2 ^ 96 \<longrightarrow>
         \<not> isl (fst (duplicateTag_local actor tag s)))"
proof -
  obtain r1 s1 where branch: "createNewModelBranchFromModel actor tag s = (r1, s1)"
    by (cases "createNewModelBranchFromModel actor tag s")
  note frame = createNewModelBranchFromModel_result [of actor tag s, unfolded branch fst_conv snd_conv]
  show ?thesis
  proof (cases r1)
    case (Inl e)
    with assms branch frame show ?thesis
      by (simp add: duplicateTag_local_def await_def findByIdThrows_def resolve_def)
  next
    case (Inr newTag)
    with frame obtain copies
      where short: "length copies \<le> length (ruleGroupIds tag)"
        and shape: "newTag = tag\<lparr>id' := ObjectId (of_nat (nextId s)), ruleGroupIds := copies\<rparr>"
      by auto
    from assms branch frame Inr short show ?thesis
      unfolding shape
      by (auto simp: duplicateTag_local_def await_def findByIdThrows_def resolve_def
          save_Revision_def Let_def)
  qed
qed

lemma duplicateTag_found:
  assumes "new_ObjectId (TagDuplicateInput.tag_id data) = Inr tagId"
    and "tags s tagId = Some tag"
    and "access ctx (orgId tag) CreateAccess"
    and "revisions s (revisionId tag) = Some revision"
  shows "nextId s \<le> nextId (snd (duplicateTag data ctx s))
   \<and> nextId (snd (duplicateTag data ctx s)) \<le> Suc (nextId s + length (ruleGroupIds tag))
   \<and> (case fst (duplicateTag data ctx s) of
         Inl e \<Rightarrow> tags (snd (duplicateTag data ctx s)) = tags s
       | Inr dup \<Rightarrow>
           nextId s < 2 ^ 96
           \<and> nextId s < nextId (snd (duplicateTag data ctx s))
           \<and> (\<exists>copies. length copies \<le> length (ruleGroupIds tag)
                \<and> dup = tag\<lparr>id' := ObjectId (of_nat (nextId s)), ruleGroupIds := copies,
                            Tag.name := TagDuplicateInput.name data\<rparr>)
           \<and> tags (snd (duplicateTag data ctx s))
               = (tags s)(ObjectId (of_nat (nextId s)) \<mapsto> dup)
           \<and> revisions (snd (duplicateTag data ctx s))
               = (revisions s)(id' revision \<mapsto>
                    revision\<lparr>tagIds := tagIds revision @ [ObjectId (of_nat (nextId s))]\<rparr>))
   \<and> (Suc (nextId s + length (ruleGroupIds tag)) < 2 ^ 96 \<longrightarrow>
         \<not> isl (fst (duplicateTag data ctx s)))"
proof -
  obtain r1 s1 where local: "duplicateTag_local (user ctx) tag s = (r1, s1)"
    by (cases "duplicateTag_local (user ctx) tag s")
  note frame = duplicateTag_local_result [OF assms(4), of "user ctx",
      unfolded local fst_conv snd_conv]
  show ?thesis
  proof (cases r1)
    case (Inl e)
    with assms(1-3) local frame show ?thesis
      by (simp add: duplicateTag_def await_def sync_def findByIdThrows_def
          asUserWithAccess_def resolve_def)
  next
    case (Inr newTag)
    with frame obtain copies
      where short: "length copies \<le> length (ruleGroupIds tag)"
        and shape: "newTag = tag\<lparr>id' := ObjectId (of_nat (nextId s)), ruleGroupIds := copies\<rparr>"
      by auto
    from assms(1-3) local frame Inr short show ?thesis
      unfolding shape
      by (auto simp: duplicateTag_def await_def sync_def findByIdThrows_def
          asUserWithAccess_def resolve_def save_Tag_def toGQLType_def Let_def)
  qed
qed

lemma duplicateTag_failures:
  "new_ObjectId (TagDuplicateInput.tag_id data) = Inl e \<Longrightarrow>
     duplicateTag data ctx s = (Inl e, s)"
  "new_ObjectId (TagDuplicateInput.tag_id data) = Inr tagId \<Longrightarrow> tags s tagId = None \<Longrightarrow>
     duplicateTag data ctx s = (Inl (GQLError (UserMessage tagFailed) True), s)"
  "new_ObjectId (TagDuplicateInput.tag_id data) = Inr tagId \<Longrightarrow> tags s tagId = Some tag \<Longrightarrow>
     \<not> access ctx (orgId tag) CreateAccess \<Longrightarrow>
     duplicateTag data ctx s = (Inl (AccessDenied CreateAccess), s)"
  "new_ObjectId (TagDuplicateInput.tag_id data) = Inr tagId \<Longrightarrow> tags s tagId = Some tag \<Longrightarrow>
     access ctx (orgId tag) CreateAccess \<Longrightarrow> revisions s (revisionId tag) = None \<Longrightarrow>
     duplicateTag data ctx s = (Inl (GQLError (UserMessage revisionFailed) True), s)"
  by (simp_all add: duplicateTag_def duplicateTag_local_def await_def sync_def findByIdThrows_def
      asUserWithAccess_def throw_def resolve_def)

lemma duplicateTag_succeeded:
  assumes "duplicateTag data ctx s = (Inr dup, s')"
  obtains tagId tag revision copies
  where "new_ObjectId (TagDuplicateInput.tag_id data) = Inr tagId"
    and "tags s tagId = Some tag"
    and "access ctx (orgId tag) CreateAccess"
    and "revisions s (revisionId tag) = Some revision"
    and "nextId s < 2 ^ 96" and "nextId s < nextId s'"
    and "dup = tag\<lparr>id' := ObjectId (of_nat (nextId s)), ruleGroupIds := copies,
                   Tag.name := TagDuplicateInput.name data\<rparr>"
    and "tags s' = (tags s)(ObjectId (of_nat (nextId s)) \<mapsto> dup)"
    and "revisions s' = (revisions s)(id' revision \<mapsto>
           revision\<lparr>tagIds := tagIds revision @ [ObjectId (of_nat (nextId s))]\<rparr>)"
proof (cases "new_ObjectId (TagDuplicateInput.tag_id data)")
  case (Inl e)
  with assms show ?thesis by (simp add: duplicateTag_failures)
next
  case (Inr tagId)
  show ?thesis
  proof (cases "tags s tagId")
    case None
    with Inr assms show ?thesis by (simp add: duplicateTag_failures)
  next
    case (Some tag)
    show ?thesis
    proof (cases "access ctx (orgId tag) CreateAccess")
      case False
      with Inr Some assms show ?thesis by (simp add: duplicateTag_failures)
    next
      case True
      show ?thesis
      proof (cases "revisions s (revisionId tag)")
        case None
        with Inr Some True assms show ?thesis by (simp add: duplicateTag_failures)
      next
        case (Some revision)
        from duplicateTag_found [OF Inr \<open>tags s tagId = Some tag\<close> True Some] assms
        obtain copies where "nextId s < 2 ^ 96" and "nextId s < nextId s'"
          and "dup = tag\<lparr>id' := ObjectId (of_nat (nextId s)), ruleGroupIds := copies,
                         Tag.name := TagDuplicateInput.name data\<rparr>"
          and "tags s' = (tags s)(ObjectId (of_nat (nextId s)) \<mapsto> dup)"
          and "revisions s' = (revisions s)(id' revision \<mapsto>
                 revision\<lparr>tagIds := tagIds revision @ [ObjectId (of_nat (nextId s))]\<rparr>)"
          by auto
        with Inr \<open>tags s tagId = Some tag\<close> True Some show ?thesis
          by (rule that)
      qed
    qed
  qed
qed

lemma duplicateTag_result:
  assumes "new_ObjectId (TagDuplicateInput.tag_id data) = Inr tagId"
    and "tags s tagId = Some tag"
    and "access ctx (orgId tag) CreateAccess"
    and "revisions s (revisionId tag) = Some revision"
    and "Suc (nextId s + length (ruleGroupIds tag)) < 2 ^ 96"
  shows "\<exists>copies s'. duplicateTag data ctx s
        = (Inr (tag\<lparr>id' := ObjectId (of_nat (nextId s)), ruleGroupIds := copies,
                    Tag.name := TagDuplicateInput.name data\<rparr>), s')
      \<and> tags s' = (tags s)(ObjectId (of_nat (nextId s)) \<mapsto>
                      tag\<lparr>id' := ObjectId (of_nat (nextId s)), ruleGroupIds := copies,
                          Tag.name := TagDuplicateInput.name data\<rparr>)
      \<and> revisions s' = (revisions s)
           (id' revision \<mapsto> revision\<lparr>tagIds := tagIds revision @ [ObjectId (of_nat (nextId s))]\<rparr>)
      \<and> nextId s < nextId s' \<and> nextId s' \<le> Suc (nextId s + length (ruleGroupIds tag))
      \<and> length copies \<le> length (ruleGroupIds tag)"
proof -
  obtain r s' where run: "duplicateTag data ctx s = (r, s')"
    by (cases "duplicateTag data ctx s")
  note frame = duplicateTag_found [OF assms(1-4), unfolded run fst_conv snd_conv]
  with assms(5) obtain dup where "r = Inr dup"
    by (cases r) auto
  with frame show ?thesis
    unfolding run by auto
qed

lemma tagsEvolve_refl: "tagsEvolve s s"
  by (simp add: tagsEvolve_def)

lemma tagsEvolve_update:
  assumes "tags s k = Some t" and "id' t' = id' t" and "tagCode t' = tagCode t"
    and "tags s' = (tags s)(k \<mapsto> t')" and "nextId s \<le> nextId s'"
  shows "tagsEvolve s s'"
  using assms by (auto simp: tagsEvolve_def)

lemma tagsEvolve_delete:
  assumes "tags s' = (tags s)(k := None)" and "nextId s \<le> nextId s'"
  shows "tagsEvolve s s'"
  using assms by (auto simp: tagsEvolve_def)

lemma tagsEvolve_same:
  assumes "tags s' = tags s" and "nextId s \<le> nextId s'"
  shows "tagsEvolve s s'"
  using assms by (simp add: tagsEvolve_def)

lemma tagsEvolve_insert:
  assumes "wellFormed s" and "nextId s < 2 ^ 96"
    and "id' t' = ObjectId (of_nat (nextId s))"
    and "tags s' = (tags s)(ObjectId (of_nat (nextId s)) \<mapsto> t')" and "nextId s < nextId s'"
  shows "tagsEvolve s s'"
proof -
  have drawn: "unat (number (ObjectId (of_nat (nextId s)))) = nextId s"
    using assms(2) by (simp add: unat_drawn)
  have "tags s (ObjectId (of_nat (nextId s))) = None"
  proof (cases "tags s (ObjectId (of_nat (nextId s)))")
    case (Some t)
    with assms(1) have "unat (number (ObjectId (of_nat (nextId s)))) < nextId s"
      unfolding wellFormed_def by blast
    with drawn show ?thesis by simp
  qed simp
  with assms(3-5) drawn show ?thesis
    by (auto simp: tagsEvolve_def)
qed

lemma tagsEvolve_wellFormed:
  assumes "wellFormed s" and "tagsEvolve s s'"
  shows "wellFormed s'"
  unfolding wellFormed_def
proof (intro allI impI)
  fix k t'
  assume new: "tags s' k = Some t'"
  from assms(2) have le: "nextId s \<le> nextId s'"
    unfolding tagsEvolve_def by blast
  from assms(1) have old: "id' t = k \<and> unat (number k) < nextId s" if "tags s k = Some t" for t
    using that unfolding wellFormed_def by blast
  from assms(2) have "tags s' k = tags s k \<or> tags s' k = None
       \<or> (\<exists>t t'. tags s k = Some t \<and> tags s' k = Some t' \<and> id' t' = id' t \<and> tagCode t' = tagCode t)
       \<or> (tags s k = None \<and> nextId s \<le> unat (number k) \<and> unat (number k) < nextId s'
             \<and> (\<exists>t'. tags s' k = Some t' \<and> id' t' = k))"
    unfolding tagsEvolve_def by blast
  then show "id' t' = k \<and> unat (number k) < nextId s'"
  proof (elim disjE exE conjE)
    assume "tags s' k = tags s k"
    with new have "tags s k = Some t'" by simp
    with old [of t'] le show ?thesis by simp
  next
    assume "tags s' k = None"
    with new show ?thesis by simp
  next
    fix t u
    assume "tags s k = Some t" and "tags s' k = Some u" and "id' u = id' t"
    with new old [of t] le show ?thesis by simp
  next
    fix u
    assume "unat (number k) < nextId s'" and "tags s' k = Some u" and "id' u = k"
    with new show ?thesis by simp
  qed
qed

lemma wellFormed_key: "wellFormed s \<Longrightarrow> tags s k = Some t \<Longrightarrow> id' t = k"
  unfolding wellFormed_def by blast

lemma updateRuleGroupsOrder_tagsEvolve:
  assumes "wellFormed s"
  shows "tagsEvolve s (snd (updateRuleGroupsOrder data ctx s))"
  unfolding updateRuleGroupsOrder_def
proof (rule gated_cases [where P = "\<lambda>r. tagsEvolve s (snd r)"], goal_cases)
  case (4 i tag)
  then have key: "tags s (id' tag) = Some tag"
    using assms by (simp add: wellFormed_key)
  have saved: "tagsEvolve s (s\<lparr>tags := (tags s)(id' tag \<mapsto> tag\<lparr>ruleGroupIds := ids\<rparr>),
                               audit := a\<rparr>)" for ids a
    using key
    by (intro tagsEvolve_update [where k = "id' tag" and t = tag
          and t' = "tag\<lparr>ruleGroupIds := ids\<rparr>"]) simp_all
  show ?case
    by (cases "map_throws new_ObjectId (new_order data)")
       (simp_all add: await_def sync_def findByIds_def save_Tag_def resolve_def throw_def
          Let_def tagsEvolve_refl saved)
qed (simp_all add: tagsEvolve_refl)

lemma deleteTag_tagsEvolve:
  "tagsEvolve s (snd (deleteTag deleteModelCascading data ctx s))"
  unfolding deleteTag_def
proof (rule gated_cases [where P = "\<lambda>r. tagsEvolve s (snd r)"], goal_cases)
  case (4 i tag)
  show ?case
    by (cases "revisions s (revisionId tag)")
       (auto simp: await_def findByIdThrows_def save_Revision_def resolve_def throw_def
          deleteModelCascading_def Let_def tagsEvolve_refl
          intro!: tagsEvolve_delete [where k = "id' tag"])
qed (simp_all add: tagsEvolve_refl)

lemma updateTag_tagsEvolve:
  assumes "wellFormed s"
  shows "tagsEvolve s (snd (updateTag data ctx s))"
  unfolding updateTag_def
proof (rule gated_cases [where P = "\<lambda>r. tagsEvolve s (snd r)"], goal_cases)
  case (4 i tag)
  then have key: "tags s (id' tag) = Some tag"
    using assms by (simp add: wellFormed_key)
  let ?tag' = "bulkGQLSet tag (toObject data)
                 [''name'', ''width'', ''height'', ''auto_load'', ''is_active'']"
  have "tagsEvolve s (s\<lparr>tags := (tags s)(id' tag \<mapsto> ?tag'), audit := a\<rparr>)" for a
    using key by (intro tagsEvolve_update [where k = "id' tag" and t = tag and t' = ?tag'])
                 (simp_all add: bulkGQLSet_frame)
  then show ?case
    by (simp add: await_def save_Tag_def resolve_def throw_def Let_def tagsEvolve_refl
        bulkGQLSet_frame)
qed (simp_all add: tagsEvolve_refl)

lemma duplicateTag_tagsEvolve:
  assumes "wellFormed s"
  shows "tagsEvolve s (snd (duplicateTag data ctx s))"
proof (cases "new_ObjectId (TagDuplicateInput.tag_id data)")
  case (Inl e)
  then show ?thesis by (simp add: duplicateTag_failures tagsEvolve_refl)
next
  case (Inr tagId)
  show ?thesis
  proof (cases "tags s tagId")
    case None
    with Inr show ?thesis by (simp add: duplicateTag_failures tagsEvolve_refl)
  next
    case (Some tag)
    show ?thesis
    proof (cases "access ctx (orgId tag) CreateAccess")
      case False
      with Inr Some show ?thesis by (simp add: duplicateTag_failures tagsEvolve_refl)
    next
      case True
      show ?thesis
      proof (cases "revisions s (revisionId tag)")
        case None
        with Inr Some True show ?thesis by (simp add: duplicateTag_failures tagsEvolve_refl)
      next
        case (Some revision)
        obtain r s' where run: "duplicateTag data ctx s = (r, s')"
          by (cases "duplicateTag data ctx s")
        note frame = duplicateTag_found [OF Inr \<open>tags s tagId = Some tag\<close> True Some,
            unfolded run fst_conv snd_conv]
        show ?thesis
        proof (cases r)
          case (Inl e)
          with frame show ?thesis
            unfolding run by (simp add: tagsEvolve_same)
        next
          case (Inr dup)
          with frame have "nextId s < 2 ^ 96" and "id' dup = ObjectId (of_nat (nextId s))"
            and "tags s' = (tags s)(ObjectId (of_nat (nextId s)) \<mapsto> dup)"
            and "nextId s < nextId s'"
            by auto
          with assms show ?thesis
            unfolding run by (simp add: tagsEvolve_insert [where t' = dup])
        qed
      qed
    qed
  qed
qed

lemma createTag_tagsEvolve:
  assumes "wellFormed s"
  shows "tagsEvolve s (snd (createTag gen data ctx s))"
  unfolding createTag_def
proof (rule gated_cases [where P = "\<lambda>r. tagsEvolve s (snd r)"], goal_cases)
  case (4 i revision)
  show ?case
    using assms
    by (auto simp: createTagSkeleton_result await_def resolve_def throw_def Let_def
        tagsEvolve_refl intro!: tagsEvolve_insert)
qed (simp_all add: tagsEvolve_refl)

lemma snd_await_resolve: "snd (await p (\<lambda>x. resolve (f x)) s) = snd (p s)"
  by (cases "p s" rule: prod.exhaust [case_product sum.exhaust, simplified])
     (auto simp: await_def resolve_def split: sum.splits prod.splits)

lemma resolvers_tagsEvolve:
  assumes "wellFormed s"
  shows "tagsEvolve s (snd (gqlExtendedMutationResolvers gen args ctx s))"
  using assms
  by (cases args)
     (simp_all add: gqlExtendedMutationResolvers_def snd_await_resolve
        updateRuleGroupsOrder_tagsEvolve deleteTag_tagsEvolve updateTag_tagsEvolve
        duplicateTag_tagsEvolve createTag_tagsEvolve)

lemma tagsEvolve_old_key:
  assumes "tagsEvolve s s'" and "unat (number k) < nextId s"
    and "tags s k = None \<or> (\<exists>Y. tags s k = Some Y \<and> tagCode Y = c)"
  shows "unat (number k) < nextId s'
         \<and> (tags s' k = None \<or> (\<exists>Y. tags s' k = Some Y \<and> tagCode Y = c))"
proof -
  from assms(1) have "nextId s \<le> nextId s'"
    unfolding tagsEvolve_def by blast
  moreover from assms(1) have "tags s' k = tags s k \<or> tags s' k = None
       \<or> (\<exists>t t'. tags s k = Some t \<and> tags s' k = Some t' \<and> id' t' = id' t \<and> tagCode t' = tagCode t)
       \<or> (tags s k = None \<and> nextId s \<le> unat (number k) \<and> unat (number k) < nextId s'
             \<and> (\<exists>t'. tags s' k = Some t' \<and> id' t' = k))"
    unfolding tagsEvolve_def by blast
  ultimately show ?thesis
    using assms(2,3) by auto
qed

lemma run_old_key:
  assumes "wellFormed s" and "unat (number k) < nextId s"
    and "tags s k = None \<or> (\<exists>Y. tags s k = Some Y \<and> tagCode Y = c)"
  shows "tags (run gen requests s) k = None
         \<or> (\<exists>Y. tags (run gen requests s) k = Some Y \<and> tagCode Y = c)"
  using assms
proof (induction requests arbitrary: s)
  case Nil
  then show ?case by simp
next
  case (Cons request requests)
  obtain args ctx where request: "request = (args, ctx)"
    by (cases request)
  let ?s1 = "snd (gqlExtendedMutationResolvers gen args ctx s)"
  have evolve: "tagsEvolve s ?s1"
    using Cons.prems(1) by (rule resolvers_tagsEvolve)
  then have "wellFormed ?s1"
    using Cons.prems(1) by (simp add: tagsEvolve_wellFormed)
  moreover from tagsEvolve_old_key [OF evolve Cons.prems(2,3)]
  have "unat (number k) < nextId ?s1"
    and "tags ?s1 k = None \<or> (\<exists>Y. tags ?s1 k = Some Y \<and> tagCode Y = c)"
    by simp_all
  ultimately show ?case
    using Cons.IH [of ?s1] by (simp add: request)
qed

lemma run_tagCode:
  assumes "wellFormed s" and "tags s k = Some X"
  shows "tags (run gen requests s) k = None
         \<or> (\<exists>Y. tags (run gen requests s) k = Some Y \<and> tagCode Y = tagCode X)"
proof -
  from assms have "unat (number k) < nextId s"
    unfolding wellFormed_def by blast
  with assms show ?thesis
    by (intro run_old_key) simp_all
qed

lemma duplicatesOf_tagCode:
  assumes "duplicatesOf T s ds s'" and "tags s (id' T) = Some T"
  shows "(\<forall>d \<in> set ds. tagCode d = tagCode T)
         \<and> (\<forall>d \<in> set (T # ds). \<exists>D. tags s' (id' d) = Some D \<and> tagCode D = tagCode T)"
  using assms
proof (induction rule: duplicatesOf.induct)
  case start
  then show ?case by simp
next
  case (step ds s1 src n ctx dup s2)
  let ?data = "\<lparr>TagDuplicateInput.tag_id = toString (id' src), TagDuplicateInput.name = n\<rparr>"
  from step.IH [OF step.prems]
  have codes: "\<forall>d \<in> set ds. tagCode d = tagCode T"
    and stored: "\<forall>d \<in> set (T # ds). \<exists>D. tags s1 (id' d) = Some D \<and> tagCode D = tagCode T"
    by simp_all
  from stored step.hyps(2) obtain S where S: "tags s1 (id' src) = Some S"
    and code: "tagCode S = tagCode T"
    by blast
  from step.hyps(3) obtain tagId tag copies
    where named: "new_ObjectId (TagDuplicateInput.tag_id ?data) = Inr tagId"
      and found: "tags s1 tagId = Some tag"
      and shape: "dup = tag\<lparr>id' := ObjectId (of_nat (nextId s1)), ruleGroupIds := copies,
                            Tag.name := TagDuplicateInput.name ?data\<rparr>"
      and tags2: "tags s2 = (tags s1)(ObjectId (of_nat (nextId s1)) \<mapsto> dup)"
    by (rule duplicateTag_succeeded)
  from named have "tagId = id' src"
    by (simp add: new_ObjectId_toString)
  with found S have "tag = S"
    by simp
  with shape have dup: "tagCode dup = tagCode S"
    and id2: "id' dup = ObjectId (of_nat (nextId s1))"
    by simp_all
  have "\<exists>D. tags s2 (id' d) = Some D \<and> tagCode D = tagCode T" if "d \<in> set (T # ds @ [dup])" for d
  proof (cases "id' d = ObjectId (of_nat (nextId s1))")
    case True
    with tags2 dup code show ?thesis by simp
  next
    case False
    with that id2 have "d \<in> set (T # ds)"
      by auto
    with stored obtain D where "tags s1 (id' d) = Some D" and "tagCode D = tagCode T"
      by blast
    with False tags2 show ?thesis by simp
  qed
  with codes dup code show ?case
    by simp
qed

lemma wellFormed_store0: "wellFormed store0"
  by (auto simp: wellFormed_def store0_def tagT_def tagAA_def tagP_def tagOrphan_def tagPA_def
      split: if_splits)



text \<open>
  Claim C7. For every stored Tag \<open>T\<close> and every finite sequence of successful \<open>duplicateTag\<close>
  operations starting from \<open>T\<close>, each returned duplicate (of \<open>T\<close> or of an earlier duplicate)
  has the \<open>tagCode\<close> of \<open>T\<close>. And no sequence of requests to the mutation resolvers, run from
  a well-formed store, changes the \<open>tagCode\<close> of a Tag: a Tag stored before is afterwards
  deleted or stored with the same \<open>tagCode\<close>.
\<close>

theorem tagCode_stable:
  "(tags s (id' T) = Some T \<and> duplicatesOf T s ds s' \<longrightarrow> (\<forall>d \<in> set ds. tagCode d = tagCode T))
   \<and> (wellFormed s \<and> tags s k = Some X \<longrightarrow>
        tags (run gen requests s) k = None
        \<or> (\<exists>Y. tags (run gen requests s) k = Some Y \<and> tagCode Y = tagCode X))"
  using duplicatesOf_tagCode [of T s ds s'] run_tagCode [of s k X gen requests]
  by blast

theorem tagCode_stable_witness:
  "tags store0 (id' tagT) = Some tagT \<and> wellFormed store0
   \<and> (\<exists>d1 d2 s'. duplicatesOf tagT store0 [d1, d2] s'
          \<and> tagCode d1 = ''abc123'' \<and> tagCode d2 = ''abc123'')
   \<and> (tags (run tagCodeOf [(tagUpdateInput rename, editor), (tagDuplicateInput copyOfT, editor),
                            (tagCreateInput headAutoLoad, editor)] store0) (ObjectId 21) = None
       \<or> (\<exists>Y. tags (run tagCodeOf [(tagUpdateInput rename, editor),
                                    (tagDuplicateInput copyOfT, editor),
                                    (tagCreateInput headAutoLoad, editor)] store0) (ObjectId 21)
               = Some Y
             \<and> tagCode Y = ''abc123''))"
proof -
  have root: "tags store0 (id' tagT) = Some tagT"
    by (simp add: store0_def tagT_def)
  have named: "new_ObjectId (TagDuplicateInput.tag_id
               \<lparr>TagDuplicateInput.tag_id = toString (id' tagT), TagDuplicateInput.name = ''Copy''\<rparr>)
             = Inr (id' tagT)"
    by (simp add: new_ObjectId_toString)
  have rev: "revisions store0 (revisionId tagT) = Some revision50"
    by (simp add: store0_def tagT_def)
  have may: "access editor (orgId tagT) CreateAccess"
    by (simp add: editor_def tagT_def)
  have room: "Suc (nextId store0 + length (ruleGroupIds tagT)) < 2 ^ 96"
    by (simp add: store0_def tagT_def)
  from duplicateTag_result [OF named root may rev room]
  obtain d1 s1 where first: "duplicateTag
        \<lparr>TagDuplicateInput.tag_id = toString (id' tagT), TagDuplicateInput.name = ''Copy''\<rparr>
        editor store0 = (Inr d1, s1)"
    and d1: "id' d1 = ObjectId (of_nat (nextId store0))" "orgId d1 = orgId tagT"
      "revisionId d1 = revisionId tagT" "length (ruleGroupIds d1) \<le> length (ruleGroupIds tagT)"
    and tags1: "tags s1 = (tags store0)(ObjectId (of_nat (nextId store0)) \<mapsto> d1)"
    and revs1: "revisions s1 (id' revision50) \<noteq> None"
    and next1: "nextId s1 \<le> Suc (nextId store0 + length (ruleGroupIds tagT))"
    by auto
  have named1: "new_ObjectId (TagDuplicateInput.tag_id
               \<lparr>TagDuplicateInput.tag_id = toString (id' d1), TagDuplicateInput.name = ''Copy of copy''\<rparr>)
             = Inr (id' d1)"
    by (simp add: new_ObjectId_toString)
  have src1: "tags s1 (id' d1) = Some d1"
    using d1 tags1 by simp
  have may1: "access editor (orgId d1) CreateAccess"
    using d1 may by simp
  from revs1 d1 obtain r1 where rev1: "revisions s1 (revisionId d1) = Some r1"
    by (auto simp: revision50_def tagT_def)
  have room1: "Suc (nextId s1 + length (ruleGroupIds d1)) < 2 ^ 96"
    using next1 d1(4) by (simp add: store0_def tagT_def)
  from duplicateTag_result [OF named1 src1 may1 rev1 room1]
  obtain d2 s2 where second: "duplicateTag
        \<lparr>TagDuplicateInput.tag_id = toString (id' d1), TagDuplicateInput.name = ''Copy of copy''\<rparr>
        editor s1 = (Inr d2, s2)"
    by auto
  have "duplicatesOf tagT store0 ([] @ [d1]) s1"
    using first by (intro duplicatesOf.step [OF duplicatesOf.start, of tagT]) simp_all
  then have "duplicatesOf tagT store0 ([d1] @ [d2]) s2"
    using second by (intro duplicatesOf.step [of tagT store0 "[d1]" s1 d1]) simp_all
  then have run2: "duplicatesOf tagT store0 [d1, d2] s2"
    by simp
  note inst = tagCode_stable [of store0 tagT "[d1, d2]" s2 "ObjectId 21" tagT tagCodeOf
      "[(tagUpdateInput rename, editor), (tagDuplicateInput copyOfT, editor),
        (tagCreateInput headAutoLoad, editor)]"]
  have code: "tagCode tagT = ''abc123''" and key: "id' tagT = ObjectId 21"
    by (simp_all add: tagT_def)
  from inst root run2 have "tagCode d1 = ''abc123'' \<and> tagCode d2 = ''abc123''"
    by (simp add: code)
  with run2 have "\<exists>d1 d2 s'. duplicatesOf tagT store0 [d1, d2] s'
          \<and> tagCode d1 = ''abc123'' \<and> tagCode d2 = ''abc123''"
    by blast
  moreover from inst root wellFormed_store0
  have "tags (run tagCodeOf [(tagUpdateInput rename, editor), (tagDuplicateInput copyOfT, editor),
                            (tagCreateInput headAutoLoad, editor)] store0) (ObjectId 21) = None
       \<or> (\<exists>Y. tags (run tagCodeOf [(tagUpdateInput rename, editor),
                                    (tagDuplicateInput copyOfT, editor),
                                    (tagCreateInput headAutoLoad, editor)] store0) (ObjectId 21)
               = Some Y
             \<and> tagCode Y = ''abc123'')"
    by (simp add: code key)
  ultimately show ?thesis
    using root wellFormed_store0 by blast
qed

end
